theory Spec2Isabelle
  imports Complex_Main "HOL-Library.Word"
begin

unbundle bit_operations_syntax

section \<open>JavaScript values used by the live-voice component and the speech service\<close>

text \<open>
  Exceptions of the platform are values.  \<open>RangeError\<close> is what the typed-array and
  \<open>DataView\<close> constructors and setters throw, \<open>InvalidCharacterError\<close> is what
  \<open>atob\<close> throws, \<open>NotSupportedError\<close> is what \<open>createBuffer\<close> throws and
  \<open>TypeError\<close> is an access through \<open>undefined\<close>.
\<close>

datatype js_error = RangeError | InvalidCharacterError | NotSupportedError | TypeError

text \<open>Sequencing of a fallible step with its continuation: the first throw wins.\<close>

definition and_then :: "js_error + 'a \<Rightarrow> ('a \<Rightarrow> js_error + 'b) \<Rightarrow> js_error + 'b" where
  "and_then r f = (case r of Inl e \<Rightarrow> Inl e | Inr x \<Rightarrow> f x)"

type_synonym byte = "8 word"
type_synonym int16 = "16 word"

text \<open>
  A string is a list of code units.  Every string that the two files build from bytes
  (\<open>String.fromCharCode\<close> of a \<open>Uint8Array\<close> element) and every base64 text has code
  units below 256, which is what \<^typ>\<open>char\<close> holds.
\<close>

definition fromCharCode :: "byte \<Rightarrow> char" where
  "fromCharCode b = char_of (unat b)"

definition charCodeAt :: "char \<Rightarrow> nat" where
  "charCodeAt c = of_char c"

text \<open>A store into a \<open>Uint8Array\<close> keeps the low eight bits.\<close>

definition ToUint8 :: "nat \<Rightarrow> byte" where
  "ToUint8 n = of_nat n"

text \<open>
  An element of a \<open>Float32Array\<close>, and the double it is widened to.  The only arithmetic
  the codec does on samples is a multiplication and a division by \<open>32768 = 2^15\<close>, which
  are exact in binary floating point, so a finite sample is the real number it denotes.
\<close>

datatype float32 = Finite real | NaN | PosInfinity | NegInfinity

fun times32768 :: "float32 \<Rightarrow> float32" where
  "times32768 (Finite x) = Finite (x * 32768)"
| "times32768 NaN = NaN"
| "times32768 PosInfinity = PosInfinity"
| "times32768 NegInfinity = NegInfinity"

text \<open>Rounding towards zero, the first step of the conversion to an integer type.\<close>

definition trunc :: "real \<Rightarrow> int" where
  "trunc x = (if 0 \<le> x then \<lfloor>x\<rfloor> else \<lceil>x\<rceil>)"

text \<open>
  A store into an \<open>Int16Array\<close>: not-a-number and the infinities become 0, a finite
  number is truncated and reduced modulo \<open>2^16\<close> (no clamping).
\<close>

fun ToInt16 :: "float32 \<Rightarrow> int16" where
  "ToInt16 (Finite x) = word_of_int (trunc x)"
| "ToInt16 NaN = 0"
| "ToInt16 PosInfinity = 0"
| "ToInt16 NegInfinity = 0"

text \<open>
  The bytes of an \<open>Int16Array\<close>'s buffer seen through a \<open>Uint8Array\<close>, and back.  Typed
  arrays use the byte order of the platform, little-endian on every platform the
  component runs on.
\<close>

definition int16_bytes :: "int16 \<Rightarrow> byte list" where
  "int16_bytes w = [ucast w, ucast (drop_bit 8 w)]"

definition bytes_of_Int16Array :: "int16 list \<Rightarrow> byte list" where
  "bytes_of_Int16Array ws = concat (map int16_bytes ws)"

fun int16s_of_bytes :: "byte list \<Rightarrow> int16 list" where
  "int16s_of_bytes (lo # hi # bs) = (ucast lo OR push_bit 8 (ucast hi)) # int16s_of_bytes bs"
| "int16s_of_bytes bs = []"

text \<open>\<open>new Int16Array(buffer)\<close> throws when the byte length is not a multiple of 2.\<close>

definition new_Int16Array :: "byte list \<Rightarrow> js_error + int16 list" where
  "new_Int16Array buffer =
     (if odd (length buffer) then Inl RangeError else Inr (int16s_of_bytes buffer))"

section \<open>The platform's base64 functions\<close>

definition b64_alphabet :: string where
  "b64_alphabet = ''ABCDEFGHIJKLMNOPQRSTUVWXYZabcdefghijklmnopqrstuvwxyz0123456789+/''"

definition b64_char :: "nat \<Rightarrow> char" where
  "b64_char i = b64_alphabet ! (i mod 64)"

fun index_of :: "'a \<Rightarrow> 'a list \<Rightarrow> nat option" where
  "index_of x [] = None"
| "index_of x (y # ys) = (if x = y then Some 0 else map_option Suc (index_of x ys))"

definition b64_value :: "char \<Rightarrow> nat option" where
  "b64_value c = index_of c b64_alphabet"

text \<open>
  \<open>btoa\<close>: three code units become four characters of the alphabet; a last group of one
  or two code units is padded with \<open>=\<close>.
\<close>

fun btoa :: "string \<Rightarrow> string" where
  "btoa [] = []"
| "btoa [a] =
     (let x = charCodeAt a
      in [b64_char (x div 4), b64_char ((x mod 4) * 16), CHR ''='', CHR ''=''])"
| "btoa [a, b] =
     (let x = charCodeAt a; y = charCodeAt b
      in [b64_char (x div 4), b64_char ((x mod 4) * 16 + y div 16),
          b64_char ((y mod 16) * 4), CHR ''=''])"
| "btoa (a # b # c # rest) =
     (let x = charCodeAt a; y = charCodeAt b; z = charCodeAt c
      in [b64_char (x div 4), b64_char ((x mod 4) * 16 + y div 16),
          b64_char ((y mod 16) * 4 + z div 64), b64_char (z mod 64)] @ btoa rest)"

text \<open>
  \<open>atob\<close> is the forgiving base64 decoder: ASCII whitespace is removed; when the length
  is then a multiple of 4, one or two trailing \<open>=\<close> are removed; a length of 1 modulo 4
  or a character outside the alphabet throws; each character gives six bits, and the
  four or two bits left over at the end are discarded.
\<close>

definition ascii_whitespace :: "char \<Rightarrow> bool" where
  "ascii_whitespace c = (c = CHR 0x09 \<or> c = CHR 0x0A \<or> c = CHR 0x0C \<or> c = CHR 0x0D \<or> c = CHR 0x20)"

definition strip_padding :: "string \<Rightarrow> string" where
  "strip_padding s =
     (if length s mod 4 = 0 then
        (if 2 \<le> length s \<and> last s = CHR ''='' \<and> last (butlast s) = CHR ''=''
         then butlast (butlast s)
         else if s \<noteq> [] \<and> last s = CHR ''='' then butlast s
         else s)
      else s)"

fun b64_bytes :: "nat list \<Rightarrow> nat list" where
  "b64_bytes (p # q # r # s # rest) =
     [p * 4 + q div 16, (q mod 16) * 16 + r div 4, (r mod 4) * 64 + s] @ b64_bytes rest"
| "b64_bytes [p, q, r] = [p * 4 + q div 16, (q mod 16) * 16 + r div 4]"
| "b64_bytes [p, q] = [p * 4 + q div 16]"
| "b64_bytes [p] = []"
| "b64_bytes [] = []"

definition atob :: "string \<Rightarrow> js_error + string" where
  "atob s =
     (let d = strip_padding (filter (\<lambda>c. \<not> ascii_whitespace c) s)
      in if length d mod 4 = 1 then Inl InvalidCharacterError
         else case those (map b64_value d) of
                None \<Rightarrow> Inl InvalidCharacterError
              | Some vs \<Rightarrow> Inr (map char_of (b64_bytes vs)))"

section \<open>The PCM codec of \<open>LiveVoice.tsx\<close>\<close>

record blob =
  data :: string
  mimeType :: string

text \<open>\<open>createBlob\<close>: each of its two \<open>for\<close> statements visits every index once, so each is a map.\<close>

definition createBlob :: "float32 list \<Rightarrow> blob" where
  "createBlob samples =
     (let int16 = map (\<lambda>x. ToInt16 (times32768 x)) samples;
          binary = bytes_of_Int16Array int16;
          str = map fromCharCode binary
      in \<lparr>data = btoa str, mimeType = ''audio/pcm;rate=16000''\<rparr>)"

definition decode :: "string \<Rightarrow> js_error + byte list" where
  "decode base64 =
     and_then (atob base64) (\<lambda>binaryString. Inr (map (\<lambda>c. ToUint8 (charCodeAt c)) binaryString))"

record audio_buffer =
  numberOfChannels :: nat
  frames :: nat
  sampleRate :: nat
  channelData :: "float32 list list"

text \<open>
  \<open>createBuffer\<close> of the Web Audio API throws \<open>NotSupportedError\<close> when an argument is
  zero or outside its nominal range; otherwise the buffer holds silence.  Every
  implementation supports 1 to 32 channels and sample rates from 8000 to 96000, and this
  is the range the model takes; the component asks for one channel at 24000.  The length
  argument is an unsigned long: the fraction of the number passed is dropped.
\<close>

definition createBuffer :: "nat \<Rightarrow> real \<Rightarrow> nat \<Rightarrow> js_error + audio_buffer" where
  "createBuffer numChannels frameCount rate =
     (if numChannels = 0 \<or> 32 < numChannels \<or> nat (trunc frameCount) = 0
         \<or> rate < 8000 \<or> 96000 < rate
      then Inl NotSupportedError
      else Inr \<lparr>numberOfChannels = numChannels, frames = nat (trunc frameCount),
                sampleRate = rate,
                channelData = replicate numChannels (replicate (nat (trunc frameCount)) (Finite 0))\<rparr>)"

definition duration :: "audio_buffer \<Rightarrow> real" where
  "duration buffer = real (frames buffer) / real (sampleRate buffer)"

text \<open>
  Reading a typed array out of range gives \<open>undefined\<close>, and \<open>undefined / 32768.0\<close> is
  not-a-number; writing out of range is ignored, as a list update out of range is.
\<close>

definition over32768 :: "int16 list \<Rightarrow> nat \<Rightarrow> float32" where
  "over32768 dataInt16 j =
     (if j < length dataInt16 then Finite (real_of_int (sint (dataInt16 ! j)) / 32768) else NaN)"

function fill_channel :: "int16 list \<Rightarrow> nat \<Rightarrow> nat \<Rightarrow> real \<Rightarrow> nat \<Rightarrow> float32 list \<Rightarrow> float32 list" where
  "fill_channel dataInt16 numChannels c frameCount i chData =
     (if real i < frameCount
      then fill_channel dataInt16 numChannels c frameCount (i + 1)
             (chData[i := over32768 dataInt16 (i * numChannels + c)])
      else chData)"
  by pat_completeness auto
termination
  by (relation "measure (\<lambda>(d, n, c, frameCount, i, ch). nat \<lceil>frameCount\<rceil> - i)") (auto, linarith)

declare fill_channel.simps [simp del]

definition decodeAudioData :: "byte list \<Rightarrow> nat \<Rightarrow> nat \<Rightarrow> js_error + audio_buffer" where
  "decodeAudioData bytes rate numChannels =
     and_then (new_Int16Array bytes) (\<lambda>dataInt16.
       let frameCount = real (length dataInt16) / real numChannels
       in and_then (createBuffer numChannels frameCount rate) (\<lambda>buffer.
            Inr (buffer\<lparr>channelData :=
                   map (\<lambda>c. fill_channel dataInt16 numChannels c frameCount 0 (channelData buffer ! c))
                       [0..<numChannels]\<rparr>)))"

section \<open>The live-voice component of \<open>LiveVoice.tsx\<close>\<close>

text \<open>
  The state of the component: the \<open>useState\<close> cells and the \<open>useRef\<close> cells.  An audio
  context is named by its sample rate, a media stream by its tracks.  Times are in
  seconds and are real numbers: the clock's readings and the buffers' durations are taken
  as the numbers they denote.
\<close>

record component =
  active :: bool
  status :: string
  transcription :: string
  instruction :: string
  audioContextRef :: "nat option"
  mediaStreamRef :: "nat list option"
  sessionRef :: bool
  nextStartTimeRef :: real
  outputNodeRef :: "nat option"

definition initial_component :: component where
  "initial_component =
     \<lparr>active = False, status = ''Ready to connect'', transcription = [],
      instruction = ''You are an expert SEO consultant and Content Strategist. Help the user plan their content strategy verbally. Keep responses concise.'',
      audioContextRef = None, mediaStreamRef = None, sessionRef = False,
      nextStartTimeRef = 0, outputNodeRef = None\<rparr>"

text \<open>What the component does to the world outside its state, in the order it does it.\<close>

datatype effect =
    ConsoleError string
  | NewAudioContext nat
  | CreateGain nat
  | GetUserMedia
  | LiveConnect string string
  | TrackStop nat
  | ContextClose nat
  | LocationReload
  | SourceStart real audio_buffer

subsection \<open>Inbound messages\<close>

datatype inline_data = InlineData (data_opt: "string option")
datatype part = Part (inlineData: "inline_data option")
datatype content = Content (parts: "part list option")
datatype output_transcription = OutputTranscription (transcription_text: "string option")
datatype server_content =
  ServerContent (outputTranscription: "output_transcription option") (modelTurn: "content option")
datatype server_message = LiveServerMessage (serverContent: "server_content option")

text \<open>\<open>msg.serverContent?.outputTranscription\<close>\<close>

definition msg_outputTranscription :: "server_message \<Rightarrow> output_transcription option" where
  "msg_outputTranscription msg =
     (case serverContent msg of None \<Rightarrow> None | Some sc \<Rightarrow> outputTranscription sc)"

text \<open>
  \<open>msg.serverContent?.modelTurn?.parts[0]?.inlineData?.data\<close>: there is no \<open>?.\<close> after
  \<open>parts\<close>, so a model turn without parts throws.
\<close>

definition msg_base64Audio :: "server_message \<Rightarrow> js_error + string option" where
  "msg_base64Audio msg =
     (case serverContent msg of
        None \<Rightarrow> Inr None
      | Some sc \<Rightarrow>
         (case modelTurn sc of
            None \<Rightarrow> Inr None
          | Some turn \<Rightarrow>
             (case parts turn of
                None \<Rightarrow> Inl TypeError
              | Some ps \<Rightarrow>
                 (case ps of
                    [] \<Rightarrow> Inr None
                  | p # rest \<Rightarrow>
                     (case inlineData p of None \<Rightarrow> Inr None | Some d \<Rightarrow> Inr (data_opt d))))))"

text \<open>
  The first block of \<open>onmessage\<close>, ``Handle Text Transcription'': a fragment that is
  present and non-empty is appended to the transcript.
\<close>

definition handle_text_transcription :: "server_message \<Rightarrow> component \<Rightarrow> component" where
  "handle_text_transcription msg st =
     (case msg_outputTranscription msg of
        None \<Rightarrow> st
      | Some tr \<Rightarrow>
         st\<lparr>transcription :=
              (case transcription_text tr of
                 None \<Rightarrow> transcription st
               | Some t \<Rightarrow> if t \<noteq> [] then transcription st @ t else transcription st)\<rparr>)"

text \<open>
  The \<open>onmessage\<close> callback, run to completion on one message while the output clock
  reads \<open>currentTime\<close>.  It yields the exception that rejected its promise, if any, the
  sources started, and the new state.  The callback exists only after \<open>connect\<close> has set
  the output node, so connecting the source cannot fail.
\<close>

definition onmessage :: "real \<Rightarrow> server_message \<Rightarrow> component \<Rightarrow> js_error option \<times> effect list \<times> component" where
  "onmessage currentTime msg st =
     (let st1 = handle_text_transcription msg st
      in case msg_base64Audio msg of
           Inl e \<Rightarrow> (Some e, [], st1)
         | Inr None \<Rightarrow> (None, [], st1)
         | Inr (Some base64Audio) \<Rightarrow>
            (if base64Audio = [] then (None, [], st1)
             else
               (let st2 = st1\<lparr>nextStartTimeRef := max (nextStartTimeRef st1) currentTime\<rparr>
                in case and_then (decode base64Audio) (\<lambda>bytes. decodeAudioData bytes 24000 1) of
                     Inl e \<Rightarrow> (Some e, [], st2)
                   | Inr audioBuffer \<Rightarrow>
                      (None, [SourceStart (nextStartTimeRef st2) audioBuffer],
                       st2\<lparr>nextStartTimeRef := (nextStartTimeRef st2 + duration audioBuffer)\<rparr>))))"

text \<open>
  A session: the messages in arrival order, each with the reading of the output clock
  when it is handled, each handled to completion before the next.  A rejected promise of
  one callback does not stop the next.
\<close>

fun run_messages :: "(real \<times> server_message) list \<Rightarrow> component \<Rightarrow> effect list \<times> component" where
  "run_messages [] st = ([], st)"
| "run_messages ((currentTime, msg) # rest) st =
     (case onmessage currentTime msg st of
        (err, effs, st') \<Rightarrow>
          (case run_messages rest st' of (effs', st'') \<Rightarrow> (effs @ effs', st'')))"

text \<open>
  The segment a message hands to the playback scheduler: the buffer its audio payload
  decodes to, if it has a payload and the payload decodes.
\<close>

definition msg_segment :: "server_message \<Rightarrow> audio_buffer option" where
  "msg_segment msg =
     (case msg_base64Audio msg of
        Inl e \<Rightarrow> None
      | Inr None \<Rightarrow> None
      | Inr (Some base64Audio) \<Rightarrow>
          (if base64Audio = [] then None
           else (case and_then (decode base64Audio) (\<lambda>bytes. decodeAudioData bytes 24000 1) of
                   Inl e \<Rightarrow> None
                 | Inr audioBuffer \<Rightarrow> Some audioBuffer)))"

text \<open>The sources started, with their start times, in the order they were started.\<close>

fun started :: "effect list \<Rightarrow> (real \<times> audio_buffer) list" where
  "started [] = []"
| "started (SourceStart t b # effs) = (t, b) # started effs"
| "started (e # effs) = started effs"

subsection \<open>Connecting and disconnecting\<close>

text \<open>
  What \<open>connect\<close> reads from outside: the two places an API key may be, and whether the
  microphone request is granted (\<open>None\<close> is a rejected request).
\<close>

record connect_env =
  VITE_API_KEY :: "string option"
  window_API_KEY :: "string option"
  getUserMedia :: "nat list option"

text \<open>\<open>a || b || ''\<close> on strings that may be undefined: the first non-empty one.\<close>

definition first_truthy :: "string option \<Rightarrow> string option \<Rightarrow> string" where
  "first_truthy a b =
     (case a of
        Some x \<Rightarrow> if x \<noteq> [] then x else (case b of Some y \<Rightarrow> y | None \<Rightarrow> [])
      | None \<Rightarrow> (case b of Some y \<Rightarrow> y | None \<Rightarrow> []))"

definition connect :: "connect_env \<Rightarrow> component \<Rightarrow> effect list \<times> component" where
  "connect env st0 =
     (let st = st0\<lparr>status := ''Connecting...''\<rparr>;
          apiKey = first_truthy (VITE_API_KEY env) (window_API_KEY env)
      in if apiKey = [] then
           ([ConsoleError ''Missing API key. Set VITE_API_KEY in your environment.''],
            st\<lparr>status := ''Missing API key'', active := False\<rparr>)
         else
           let effs = [NewAudioContext 16000, NewAudioContext 24000, CreateGain 24000];
               st = st\<lparr>audioContextRef := Some 24000, outputNodeRef := Some 24000\<rparr>
           in case getUserMedia env of
                None \<Rightarrow>
                  (effs @ [GetUserMedia, ConsoleError ''Connection failed''],
                   st\<lparr>status := ''Failed to connect'', active := False\<rparr>)
              | Some stream \<Rightarrow>
                  (effs @ [GetUserMedia, LiveConnect apiKey (instruction st)],
                   st\<lparr>mediaStreamRef := Some stream, sessionRef := True\<rparr>))"


section \<open>The speech service of \<open>gemini.ts\<close>\<close>

subsection \<open>\<open>DataView\<close> setters, little-endian\<close>

definition setUint8 :: "byte list \<Rightarrow> nat \<Rightarrow> nat \<Rightarrow> js_error + byte list" where
  "setUint8 view byteOffset v =
     (if byteOffset + 1 \<le> length view then Inr (view[byteOffset := ToUint8 v])
      else Inl RangeError)"

definition setUint16 :: "byte list \<Rightarrow> nat \<Rightarrow> nat \<Rightarrow> js_error + byte list" where
  "setUint16 view byteOffset v =
     (if byteOffset + 2 \<le> length view
      then Inr (view[byteOffset := ToUint8 v, byteOffset + 1 := ToUint8 (v div 256)])
      else Inl RangeError)"

definition setUint32 :: "byte list \<Rightarrow> nat \<Rightarrow> nat \<Rightarrow> js_error + byte list" where
  "setUint32 view byteOffset v =
     (if byteOffset + 4 \<le> length view
      then Inr (view[byteOffset := ToUint8 v, byteOffset + 1 := ToUint8 (v div 256),
                     byteOffset + 2 := ToUint8 (v div 65536),
                     byteOffset + 3 := ToUint8 (v div 16777216)])
      else Inl RangeError)"

text \<open>The matching getters, to read a header back.\<close>

definition getUint16 :: "byte list \<Rightarrow> nat \<Rightarrow> nat" where
  "getUint16 view byteOffset = unat (view ! byteOffset) + 256 * unat (view ! (byteOffset + 1))"

definition getUint32 :: "byte list \<Rightarrow> nat \<Rightarrow> nat" where
  "getUint32 view byteOffset =
     unat (view ! byteOffset) + 256 * unat (view ! (byteOffset + 1))
       + 65536 * unat (view ! (byteOffset + 2)) + 16777216 * unat (view ! (byteOffset + 3))"

text \<open>\<open>writeString\<close>: the loop over \<open>i\<close> writes character \<open>i\<close> at \<open>offset + i\<close>.\<close>

fun writeString :: "byte list \<Rightarrow> nat \<Rightarrow> string \<Rightarrow> js_error + byte list" where
  "writeString view offset [] = Inr view"
| "writeString view offset (c # cs) =
     and_then (setUint8 view offset (charCodeAt c)) (\<lambda>view'. writeString view' (offset + 1) cs)"

text \<open>\<open>target.set(source, offset)\<close> on typed arrays.\<close>

definition typed_set :: "byte list \<Rightarrow> byte list \<Rightarrow> nat \<Rightarrow> js_error + byte list" where
  "typed_set target source offset =
     (if offset + length source \<le> length target
      then Inr (take offset target @ source @ drop (offset + length source) target)
      else Inl RangeError)"

text \<open>The loop that turns the bytes into a string, \<open>0x8000\<close> at a time.\<close>

function binary_chunks :: "byte list \<Rightarrow> nat \<Rightarrow> string \<Rightarrow> string" where
  "binary_chunks wavBytes i binary =
     (if i < length wavBytes
      then binary_chunks wavBytes (i + 0x8000)
             (binary @ map fromCharCode
                (take (min (i + 0x8000) (length wavBytes) - i) (drop i wavBytes)))
      else binary)"
  by pat_completeness auto
termination
  by (relation "measure (\<lambda>(wavBytes, i, binary). length wavBytes - i)") auto

declare binary_chunks.simps [simp del]

definition pcmToWav :: "string \<Rightarrow> nat \<Rightarrow> js_error + string" where
  "pcmToWav pcmBase64 rate =
     and_then (atob pcmBase64) (\<lambda>pcmBinary.
     let pcmLen = length pcmBinary;
         header = replicate 44 (0 :: byte)
     in
     and_then (writeString header 0 ''RIFF'') (\<lambda>view.
     and_then (setUint32 view 4 (36 + pcmLen)) (\<lambda>view.
     and_then (writeString view 8 ''WAVE'') (\<lambda>view.
     and_then (writeString view 12 ''fmt '') (\<lambda>view.
     and_then (setUint32 view 16 16) (\<lambda>view.
     and_then (setUint16 view 20 1) (\<lambda>view.
     and_then (setUint16 view 22 1) (\<lambda>view.
     and_then (setUint32 view 24 rate) (\<lambda>view.
     and_then (setUint32 view 28 (rate * 2)) (\<lambda>view.
     and_then (setUint16 view 32 2) (\<lambda>view.
     and_then (setUint16 view 34 16) (\<lambda>view.
     and_then (writeString view 36 ''data'') (\<lambda>view.
     and_then (setUint32 view 40 pcmLen) (\<lambda>headerBytes.
     let pcmBytes = map (\<lambda>c. ToUint8 (charCodeAt c)) pcmBinary
     in
     and_then (typed_set (replicate (length headerBytes + pcmLen) 0) headerBytes 0) (\<lambda>wavBytes.
     and_then (typed_set wavBytes pcmBytes (length headerBytes)) (\<lambda>wavBytes.
     Inr (btoa (binary_chunks wavBytes 0 []))))))))))))))))))"

subsection \<open>Retrying\<close>

text \<open>What a rejected call throws, as far as \<open>withRetry\<close> looks at it.\<close>

record api_error =
  error_status :: "int option"
  error_message :: "string option"

fun starts_with :: "string \<Rightarrow> string \<Rightarrow> bool" where
  "starts_with s [] = True"
| "starts_with [] (c # cs) = False"
| "starts_with (d # ds) (c # cs) = (d = c \<and> starts_with ds cs)"

fun string_includes :: "string \<Rightarrow> string \<Rightarrow> bool" where
  "string_includes [] t = (t = [])"
| "string_includes (c # cs) t = (starts_with (c # cs) t \<or> string_includes cs t)"

definition shouldRetry :: "api_error \<Rightarrow> bool" where
  "shouldRetry error =
     (error_status error = Some 503 \<or> error_status error = Some 500 \<or> error_status error = Some 429
      \<or> (case error_message error of None \<Rightarrow> False | Some m \<Rightarrow> string_includes m ''unavailable''))"

text \<open>
  \<open>fn\<close> is called anew at every attempt and may answer differently each time:
  \<open>fn k\<close> is what its call number \<open>k\<close> gives, \<open>Inl\<close> a rejection.  \<open>withRetry\<close> yields
  the outcome, the number of calls made so far, and the delays it slept, in order.
\<close>

function withRetry :: "(nat \<Rightarrow> api_error + 'a) \<Rightarrow> nat \<Rightarrow> nat \<Rightarrow> nat \<Rightarrow> (api_error + 'a) \<times> nat \<times> nat list" where
  "withRetry fn retries delay k =
     (case fn k of
        Inr v \<Rightarrow> (Inr v, k + 1, [])
      | Inl error \<Rightarrow>
         if retries > 0 \<and> shouldRetry error then
           (case withRetry fn (retries - 1) (delay * 2) (k + 1) of
              (r, n, delays) \<Rightarrow> (r, n, delay # delays))
         else (Inl error, k + 1, []))"
  by pat_completeness auto
termination
  by (relation "measure (\<lambda>(fn, retries, delay, k). retries)") auto

declare withRetry.simps [simp del]

section \<open>Example inputs\<close>

text \<open>A message with the given transcript fragment and the given audio payload, if any.\<close>

definition message :: "string option \<Rightarrow> string option \<Rightarrow> server_message" where
  "message fragment audio =
     LiveServerMessage (Some (ServerContent
       (map_option (\<lambda>t. OutputTranscription (Some t)) fragment)
       (map_option (\<lambda>b. Content (Some [Part (Some (InlineData (Some b)))])) audio)))"

text \<open>An operation that is rejected with status 503 twice and then answers 7.\<close>

definition flaky :: "nat \<Rightarrow> api_error + nat" where
  "flaky k = (if k < 2 then Inl \<lparr>error_status = Some 503, error_message = None\<rparr> else Inr 7)"

section \<open>Decoding what \<open>btoa\<close> encoded\<close>

lemma distinct_alphabet: "distinct b64_alphabet"
  by (simp add: b64_alphabet_def)

lemma len_alphabet: "length b64_alphabet = 64"
  by (simp add: b64_alphabet_def)

lemma index_of_nth: "distinct xs \<Longrightarrow> i < length xs \<Longrightarrow> index_of (xs ! i) xs = Some i"
proof (induction xs arbitrary: i)
  case Nil then show ?case by simp
next
  case (Cons y ys)
  show ?case
  proof (cases i)
    case 0 then show ?thesis by simp
  next
    case (Suc j)
    with Cons.prems have "j < length ys" "distinct ys" "ys ! j \<noteq> y"
      by auto
    with Cons.IH[of j] Suc show ?thesis by simp
  qed
qed

lemma b64_value_char: "i < 64 \<Longrightarrow> b64_value (b64_char i) = Some i"
  unfolding b64_value_def b64_char_def
  using index_of_nth[OF distinct_alphabet, of i] by (simp add: len_alphabet)

lemma b64_char_in: "b64_char i \<in> set b64_alphabet"
  unfolding b64_char_def by (rule nth_mem) (simp add: len_alphabet)

lemma alphabet_plain: "c \<in> set b64_alphabet \<Longrightarrow> \<not> ascii_whitespace c \<and> c \<noteq> CHR ''=''"
  by (auto simp add: b64_alphabet_def ascii_whitespace_def)

lemma b64_char_plain: "\<not> ascii_whitespace (b64_char i)" "b64_char i \<noteq> CHR ''=''"
  using alphabet_plain[OF b64_char_in[of i]] by simp_all

lemma those_values: "\<forall>v\<in>set vs. v < 64 \<Longrightarrow> those (map b64_value (map b64_char vs)) = Some vs"
  by (induction vs) (simp_all add: b64_value_char)

lemma filter_plain:
  "filter (\<lambda>c. \<not> ascii_whitespace c) (map b64_char vs @ replicate k (CHR ''='')) =
     map b64_char vs @ replicate k (CHR ''='')"
proof (rule filter_True)
  have "\<not> ascii_whitespace (CHR ''='')" by (simp add: ascii_whitespace_def)
  then show "\<forall>x\<in>set (map b64_char vs @ replicate k (CHR ''='')). \<not> ascii_whitespace x"
    using b64_char_plain(1) by auto
qed

lemma strip_padding_encoded:
  assumes "k \<le> 2" "(length vs + k) mod 4 = 0"
  shows "strip_padding (map b64_char vs @ replicate k (CHR ''='')) = map b64_char vs"
proof -
  consider "k = 0" | "k = 1" | "k = 2" using assms(1) by linarith
  then show ?thesis
  proof cases
    case 1
    show ?thesis
    proof (cases "vs = []")
      case True with 1 show ?thesis by (simp add: strip_padding_def)
    next
      case False
      then have "last (map b64_char vs) \<noteq> CHR ''=''"
        by (simp add: last_map b64_char_plain)
      with 1 False show ?thesis by (simp add: strip_padding_def)
    qed
  next
    case 2
    with assms(2) have ne: "vs \<noteq> []" by auto
    then have "last (map b64_char vs) \<noteq> CHR ''=''"
      by (simp add: last_map b64_char_plain)
    with 2 assms(2) ne show ?thesis
      by (simp add: strip_padding_def butlast_append)
  next
    case 3
    with assms(2) show ?thesis
      by (simp add: strip_padding_def numeral_2_eq_2 butlast_append)
  qed
qed

lemma atob_encoded:
  assumes "\<forall>v\<in>set vs. v < 64" "k \<le> 2" "(length vs + k) mod 4 = 0"
  shows "atob (map b64_char vs @ replicate k (CHR ''='')) = Inr (map char_of (b64_bytes vs))"
proof -
  from assms(2,3) have "length vs mod 4 \<noteq> 1" by presburger
  then show ?thesis
    unfolding atob_def filter_plain strip_padding_encoded[OF assms(2,3)]
    by (simp del: map_map add: those_values[OF assms(1)])
qed

lemma sextet_bounds:
  fixes x y z :: nat
  assumes "x < 256" "y < 256" "z < 256"
  shows "x div 4 < 64" "(x mod 4) * 16 + y div 16 < 64" "(y mod 16) * 4 + z div 64 < 64" "z mod 64 < 64"
        "(x mod 4) * 16 < 64" "(y mod 16) * 4 < 64"
proof -
  have "x mod 4 < 4" "y mod 16 < 16" "y div 16 < 16" "z div 64 < 4" using assms by simp_all
  then show "x div 4 < 64" "(x mod 4) * 16 + y div 16 < 64" "(y mod 16) * 4 + z div 64 < 64" "z mod 64 < 64"
        "(x mod 4) * 16 < 64" "(y mod 16) * 4 < 64"
    using assms by simp_all
qed

lemma sx_a: fixes x y :: nat assumes "y < 256" shows "x div 4 * 4 + ((x mod 4) * 16 + y div 16) div 16 = x"
proof -
  have "y div 16 < 16" using assms by simp
  then have "((x mod 4) * 16 + y div 16) div 16 = x mod 4" by simp
  then show ?thesis by simp
qed

lemma sx_b: fixes x y z :: nat assumes "y < 256" "z < 256"
  shows "(((x mod 4) * 16 + y div 16) mod 16) * 16 + ((y mod 16) * 4 + z div 64) div 4 = y"
proof -
  have "y div 16 < 16" using assms by simp
  then have 1: "((x mod 4) * 16 + y div 16) mod 16 = y div 16" by simp
  have "z div 64 < 4" using assms by simp
  then have 2: "((y mod 16) * 4 + z div 64) div 4 = y mod 16" by simp
  show ?thesis unfolding 1 2 by simp
qed

lemma sx_c: fixes y z :: nat assumes "z < 256"
  shows "(((y mod 16) * 4 + z div 64) mod 4) * 64 + z mod 64 = z"
proof -
  have "z div 64 < 4" using assms by simp
  then have 1: "((y mod 16) * 4 + z div 64) mod 4 = z div 64" by simp
  show ?thesis unfolding 1 by simp
qed

lemma sx_d: fixes x y :: nat assumes "y < 256"
  shows "(((x mod 4) * 16 + y div 16) mod 16) * 16 + ((y mod 16) * 4) div 4 = y"
proof -
  have "y div 16 < 16" using assms by simp
  then have 1: "((x mod 4) * 16 + y div 16) mod 16 = y div 16" by simp
  show ?thesis unfolding 1 by simp
qed

lemma sx_e: fixes x :: nat shows "x div 4 * 4 + ((x mod 4) * 16) div 16 = x"
  by simp

lemma charCode_lt: "charCodeAt c < 256"
  unfolding charCodeAt_def by simp

lemma char_of_charCode: "char_of (charCodeAt c) = c"
  unfolding charCodeAt_def by simp

lemma b64_bytes_group:
  fixes x y z :: nat
  assumes "y < 256" "z < 256"
  shows "b64_bytes (x div 4 # ((x mod 4) * 16 + y div 16) # ((y mod 16) * 4 + z div 64) # (z mod 64) # vs)
           = x # y # z # b64_bytes vs"
proof -
  show ?thesis
    by (simp only: b64_bytes.simps append.simps sx_a[OF assms(1)] sx_b[OF assms] sx_c[OF assms(2)])
qed

lemma b64_bytes_last2:
  fixes x y :: nat
  assumes "y < 256"
  shows "b64_bytes [x div 4, (x mod 4) * 16 + y div 16, (y mod 16) * 4] = [x, y]"
proof -
  show ?thesis
    by (simp only: b64_bytes.simps sx_a[OF assms] sx_d[OF assms])
qed

lemma b64_bytes_last1: "b64_bytes [x div 4, (x mod 4) * 16] = [x]"
proof -
  show ?thesis by (simp only: b64_bytes.simps sx_e)
qed

lemma btoa_shape:
  "\<exists>vs k. btoa s = map b64_char vs @ replicate k (CHR ''='') \<and> (\<forall>v\<in>set vs. v < 64) \<and> k \<le> 2
     \<and> (length vs + k) mod 4 = 0 \<and> map char_of (b64_bytes vs) = s"
proof (induction s rule: btoa.induct)
  case 1
  show ?case by (rule exI[of _ "[]"], rule exI[of _ 0]) simp
next
  case (2 a)
  let ?x = "charCodeAt a"
  let ?vs = "[?x div 4, (?x mod 4) * 16]"
  have f1: "btoa [a] = map b64_char ?vs @ replicate 2 (CHR ''='')"
    by (simp add: Let_def numeral_2_eq_2)
  have f2: "\<forall>v\<in>set ?vs. v < 64"
    using sextet_bounds(1,5)[OF charCode_lt[of a] charCode_lt[of a] charCode_lt[of a]] by simp
  have f3: "map char_of (b64_bytes ?vs) = [a]"
    unfolding b64_bytes_last1 by (simp add: char_of_charCode)
  have f4: "(2::nat) \<le> 2" "(length ?vs + 2) mod 4 = 0" by simp_all
  show ?case
    by (intro exI conjI) (rule f1 f2 f3 f4)+
next
  case (3 a b)
  let ?x = "charCodeAt a" and ?y = "charCodeAt b"
  let ?vs = "[?x div 4, (?x mod 4) * 16 + ?y div 16, (?y mod 16) * 4]"
  have f1: "btoa [a, b] = map b64_char ?vs @ replicate 1 (CHR ''='')"
    by (simp add: Let_def)
  have f2: "\<forall>v\<in>set ?vs. v < 64"
    using sextet_bounds(1,2,6)[OF charCode_lt[of a] charCode_lt[of b] charCode_lt[of b]] by simp
  have f3: "map char_of (b64_bytes ?vs) = [a, b]"
    unfolding b64_bytes_last2[OF charCode_lt] by (simp add: char_of_charCode)
  have f4: "(1::nat) \<le> 2" "(length ?vs + 1) mod 4 = 0" by simp_all
  show ?case
    by (intro exI conjI) (rule f1 f2 f3 f4)+
next
  case (4 a b c rest)
  let ?x = "charCodeAt a" and ?y = "charCodeAt b" and ?z = "charCodeAt c"
  from 4[OF refl refl refl] obtain vs k where IH: "btoa rest = map b64_char vs @ replicate k (CHR ''='')"
    "\<forall>v\<in>set vs. v < 64" "k \<le> 2" "(length vs + k) mod 4 = 0" "map char_of (b64_bytes vs) = rest"
    by iprover
  let ?vs = "?x div 4 # ((?x mod 4) * 16 + ?y div 16) # ((?y mod 16) * 4 + ?z div 64) # (?z mod 64) # vs"
  have f1: "btoa (a # b # c # rest) = map b64_char ?vs @ replicate k (CHR ''='')"
    by (simp add: Let_def IH(1))
  have f2: "\<forall>v\<in>set ?vs. v < 64"
    using sextet_bounds(1,2,3,4)[OF charCode_lt[of a] charCode_lt[of b] charCode_lt[of c]] IH(2) by simp
  have f3: "map char_of (b64_bytes ?vs) = a # b # c # rest"
    unfolding b64_bytes_group[OF charCode_lt charCode_lt] by (simp add: char_of_charCode IH(5))
  have f4: "(length ?vs + k) mod 4 = 0"
    using IH(4) by simp
  show ?case
    by (intro exI conjI) (rule f1 f2 f3 f4 IH(3))+
qed

lemma atob_btoa: "atob (btoa s) = Inr s"
proof -
  obtain vs k where "btoa s = map b64_char vs @ replicate k (CHR ''='')" "\<forall>v\<in>set vs. v < 64" "k \<le> 2"
    "(length vs + k) mod 4 = 0" "map char_of (b64_bytes vs) = s"
    using btoa_shape[of s] by iprover
  then show ?thesis using atob_encoded[of vs k] by simp
qed

section \<open>The codec: encoding, decoding, and their round trip\<close>

lemma byte_of_char: "ToUint8 (charCodeAt (fromCharCode b)) = b"
proof -
  have "unat b < 256" using unsigned_less[of b, where 'a=nat] by simp
  then show ?thesis
    by (simp add: ToUint8_def charCodeAt_def fromCharCode_def)
qed

lemma decode_btoa: "decode (btoa (map fromCharCode bytes)) = Inr bytes"
  by (simp add: decode_def atob_btoa and_then_def o_def byte_of_char)

lemma int16_roundtrip:
  "ucast (ucast w :: byte) OR push_bit 8 (ucast (ucast (drop_bit 8 w) :: byte)) = (w :: int16)"
  by (rule bit_word_eqI) (auto simp add: bit_simps)

lemma int16s_of_bytes_roundtrip: "int16s_of_bytes (bytes_of_Int16Array ws) = ws"
  by (induction ws) (simp_all add: bytes_of_Int16Array_def int16_bytes_def int16_roundtrip)

lemma length_bytes_of_Int16Array: "length (bytes_of_Int16Array ws) = 2 * length ws"
  by (induction ws) (simp_all add: bytes_of_Int16Array_def int16_bytes_def)

lemma new_Int16Array_roundtrip: "new_Int16Array (bytes_of_Int16Array ws) = Inr ws"
  by (simp add: new_Int16Array_def length_bytes_of_Int16Array int16s_of_bytes_roundtrip)

lemma int16_bytes_little_endian:
  "int16_bytes w = [of_nat (unat w mod 256), of_nat (unat w div 256)]"
proof -
  have "(ucast w :: byte) = of_nat (unat w mod 256)"
    by (rule bit_word_eqI) (auto simp add: bit_simps take_bit_eq_mod[symmetric, where n=8, simplified] )
  moreover have "(ucast (drop_bit 8 w) :: byte) = of_nat (unat w div 256)"
    by (rule bit_word_eqI) (auto simp add: bit_simps drop_bit_eq_div[symmetric, where n=8, simplified] )
  ultimately show ?thesis by (simp add: int16_bytes_def)
qed

lemma sint_ToInt16: "sint (word_of_int k :: int16) = (k + 32768) mod 65536 - 32768"
  by (simp add: int_word_sint)


lemma fill_channel_mono:
  assumes "i \<le> n" "length ch = n"
  shows "fill_channel ws 1 0 (real n) i ch = take i ch @ map (over32768 ws) [i..<n]"
  using assms
proof (induction "n - i" arbitrary: i ch)
  case 0
  then have "i = n" by simp
  then show ?case
    using 0 by (subst fill_channel.simps) simp
next
  case (Suc m)
  then have lt: "i < n" and m: "m = n - (i + 1)" by simp_all
  have IH: "fill_channel ws 1 0 (real n) (i + 1) (ch[i := over32768 ws i]) =
          take (i + 1) (ch[i := over32768 ws i]) @ map (over32768 ws) [i + 1..<n]"
    using Suc.hyps(1)[OF m, of "ch[i := over32768 ws i]"] lt Suc.prems by simp
  have "take (i + 1) (ch[i := over32768 ws i]) = take i ch @ [over32768 ws i]"
    using lt Suc.prems by (simp add: take_Suc_conv_app_nth)
  with IH lt show ?case
    by (subst fill_channel.simps) (simp add: upt_conv_Cons)
qed

lemma trunc_of_nat: "trunc (real n) = int n"
  by (simp add: trunc_def)

lemma over32768_map:
  "map (over32768 ws) [0..<length ws] = map (\<lambda>w. Finite (real_of_int (sint w) / 32768)) ws"
  by (rule nth_equalityI) (simp_all add: over32768_def)

lemma fill_channel_all:
  "fill_channel ws (Suc 0) 0 (real (length ws)) 0 (replicate (length ws) (Finite 0)) =
     map (\<lambda>w. Finite (real_of_int (sint w) / 32768)) ws"
  using fill_channel_mono[of 0 "length ws" "replicate (length ws) (Finite 0)" ws]
  by (simp add: over32768_map)

lemma decodeAudioData_mono:
  assumes "ws \<noteq> []" "8000 \<le> rate" "rate \<le> 96000"
  shows "decodeAudioData (bytes_of_Int16Array ws) rate 1 =
           Inr \<lparr>numberOfChannels = 1, frames = length ws, sampleRate = rate,
                channelData = [map (\<lambda>w. Finite (real_of_int (sint w) / 32768)) ws]\<rparr>"
  using assms
  by (simp add: decodeAudioData_def new_Int16Array_roundtrip and_then_def createBuffer_def
        trunc_of_nat fill_channel_all)

lemma decodeAudioData_empty: "decodeAudioData [] rate 1 = Inl NotSupportedError"
  by (simp add: decodeAudioData_def new_Int16Array_def and_then_def createBuffer_def trunc_def)

lemma trunc_bounds:
  "\<bar>real_of_int (trunc y) - y\<bar> < 1"
  unfolding trunc_def by (simp; linarith)

lemma trunc_range:
  assumes "- 32768 \<le> y" "y < 32768"
  shows "- 32768 \<le> trunc y" "trunc y < 32768"
  using assms unfolding trunc_def by (simp_all; linarith)+

lemma quantize:
  assumes "- 1 \<le> x" "x < 1"
  shows "\<bar>real_of_int (sint (ToInt16 (times32768 (Finite x)))) / 32768 - x\<bar> \<le> 1 / 32768"
proof -
  let ?y = "x * 32768"
  let ?k = "trunc ?y"
  have y: "- 32768 \<le> ?y" "?y < 32768" using assms by simp_all
  have k: "- 32768 \<le> ?k" "?k < 32768" using trunc_range[OF y] by simp_all
  then have "(?k + 32768) mod 65536 = ?k + 32768" by simp
  then have s: "sint (word_of_int ?k :: int16) = ?k" by (simp add: sint_ToInt16)
  have "\<bar>real_of_int ?k - ?y\<bar> < 1" by (rule trunc_bounds)
  then have "\<bar>real_of_int ?k / 32768 - x\<bar> < 1 / 32768"
    by (simp add: field_simps abs_if split: if_splits)
  then show ?thesis by (simp add: s)
qed


lemma decode_createBlob:
  "decode (data (createBlob samples)) = Inr (bytes_of_Int16Array (map (\<lambda>x. ToInt16 (times32768 x)) samples))"
  by (simp add: createBlob_def Let_def decode_btoa)

lemma sint_sample:
  "sint (ToInt16 (times32768 x)) =
     (case x of Finite r \<Rightarrow> (trunc (r * 32768) + 32768) mod 65536 - 32768 | _ \<Rightarrow> 0)"
  by (cases x) (simp_all add: sint_ToInt16)

text \<open>
  Claim C5.  For every sample array, \<open>createBlob\<close> yields a chunk tagged
  \<open>audio/pcm;rate=16000\<close> whose base64 text decodes to exactly two bytes per sample;
  read as 16-bit integers again these bytes are the samples' conversions; a finite sample
  \<open>r\<close> is converted to \<open>r * 32768\<close> rounded towards zero and wrapped into
  \<open>-32768..32767\<close> (no clamping), and anything not finite to 0; each integer is laid
  out low byte first; the empty array gives the empty chunk.  The result is a function of
  the samples alone.
\<close>

theorem createBlob_encodes:
  "mimeType (createBlob samples) = ''audio/pcm;rate=16000''
   \<and> decode (data (createBlob samples)) =
       Inr (bytes_of_Int16Array (map (\<lambda>x. ToInt16 (times32768 x)) samples))
   \<and> length (bytes_of_Int16Array (map (\<lambda>x. ToInt16 (times32768 x)) samples)) = 2 * length samples
   \<and> new_Int16Array (bytes_of_Int16Array (map (\<lambda>x. ToInt16 (times32768 x)) samples)) =
       Inr (map (\<lambda>x. ToInt16 (times32768 x)) samples)
   \<and> map (\<lambda>x. sint (ToInt16 (times32768 x))) samples =
       map (\<lambda>x. case x of Finite r \<Rightarrow> (trunc (r * 32768) + 32768) mod 65536 - 32768 | _ \<Rightarrow> 0) samples
   \<and> bytes_of_Int16Array ws = concat (map (\<lambda>w. [of_nat (unat w mod 256), of_nat (unat w div 256)]) ws)
   \<and> createBlob [] = \<lparr>data = [], mimeType = ''audio/pcm;rate=16000''\<rparr>"
proof (intro conjI)
  show "mimeType (createBlob samples) = ''audio/pcm;rate=16000''"
    by (simp add: createBlob_def Let_def)
  show "decode (data (createBlob samples)) =
       Inr (bytes_of_Int16Array (map (\<lambda>x. ToInt16 (times32768 x)) samples))"
    by (rule decode_createBlob)
  show "length (bytes_of_Int16Array (map (\<lambda>x. ToInt16 (times32768 x)) samples)) = 2 * length samples"
    by (simp add: length_bytes_of_Int16Array)
  show "new_Int16Array (bytes_of_Int16Array (map (\<lambda>x. ToInt16 (times32768 x)) samples)) =
       Inr (map (\<lambda>x. ToInt16 (times32768 x)) samples)"
    by (rule new_Int16Array_roundtrip)
  show "map (\<lambda>x. sint (ToInt16 (times32768 x))) samples =
       map (\<lambda>x. case x of Finite r \<Rightarrow> (trunc (r * 32768) + 32768) mod 65536 - 32768 | _ \<Rightarrow> 0) samples"
    by (simp only: sint_sample)
  show "bytes_of_Int16Array ws = concat (map (\<lambda>w. [of_nat (unat w mod 256), of_nat (unat w div 256)]) ws)"
  proof -
    have "int16_bytes = (\<lambda>w. [of_nat (unat w mod 256), of_nat (unat w div 256)])"
      by (rule ext) (rule int16_bytes_little_endian)
    then show ?thesis by (simp only: bytes_of_Int16Array_def)
  qed
  show "createBlob [] = \<lparr>data = [], mimeType = ''audio/pcm;rate=16000''\<rparr>"
    by (simp add: createBlob_def bytes_of_Int16Array_def)
qed

text \<open>
  Claim C3, as amended.  For every non-empty array of samples \<open>x\<close> with
  \<open>-1 \<le> x < 1\<close>, encoding it with \<open>createBlob\<close> and decoding the chunk's text with
  \<open>decode\<close> and \<open>decodeAudioData\<close> (one channel, a rate from 8000 to 96000) gives a buffer of
  as many frames whose samples differ from the originals by at most \<open>1/32768\<close>.
\<close>

theorem roundtrip_quantization:
  assumes "S \<noteq> []" and "\<forall>x\<in>set S. - 1 \<le> x \<and> x < 1"
      and "8000 \<le> rate" and "rate \<le> 96000"
  shows "\<exists>ys. and_then (decode (data (createBlob (map Finite S)))) (\<lambda>bytes. decodeAudioData bytes rate 1) =
               Inr \<lparr>numberOfChannels = 1, frames = length S, sampleRate = rate,
                    channelData = [map Finite ys]\<rparr>
            \<and> length ys = length S
            \<and> (\<forall>i<length S. \<bar>ys ! i - S ! i\<bar> \<le> 1 / 32768)"
proof -
  let ?ws = "map (\<lambda>x. ToInt16 (times32768 x)) (map Finite S)"
  let ?ys = "map (\<lambda>x. real_of_int (sint (ToInt16 (times32768 (Finite x)))) / 32768) S"
  have ne: "?ws \<noteq> []" using assms(1) by simp
  have "and_then (decode (data (createBlob (map Finite S)))) (\<lambda>bytes. decodeAudioData bytes rate 1) =
          decodeAudioData (bytes_of_Int16Array ?ws) rate 1"
    by (simp only: decode_createBlob and_then_def sum.case)
  also have "\<dots> = Inr \<lparr>numberOfChannels = 1, frames = length ?ws, sampleRate = rate,
                channelData = [map (\<lambda>w. Finite (real_of_int (sint w) / 32768)) ?ws]\<rparr>"
    by (rule decodeAudioData_mono[OF ne assms(3,4)])
  also have "\<dots> = Inr \<lparr>numberOfChannels = 1, frames = length S, sampleRate = rate,
                    channelData = [map Finite ?ys]\<rparr>"
    by (simp add: o_def)
  finally have 1: "and_then (decode (data (createBlob (map Finite S)))) (\<lambda>bytes. decodeAudioData bytes rate 1) =
               Inr \<lparr>numberOfChannels = 1, frames = length S, sampleRate = rate,
                    channelData = [map Finite ?ys]\<rparr>" .
  have 2: "length ?ys = length S" by simp
  have 3: "\<forall>i<length S. \<bar>?ys ! i - S ! i\<bar> \<le> 1 / 32768"
  proof (intro allI impI)
    fix i assume i: "i < length S"
    then have "S ! i \<in> set S" by simp
    with assms(2) have "- 1 \<le> S ! i" "S ! i < 1" by auto
    from quantize[OF this] i show "\<bar>?ys ! i - S ! i\<bar> \<le> 1 / 32768" by simp
  qed
  from 1 2 3 show ?thesis by blast
qed

text \<open>
  Claim C3 as stated fails at the sample \<open>1.0\<close>, which lies in \<open>[-1, 1]\<close>: it is
  encoded as \<open>32768\<close>, which wraps to \<open>-32768\<close> and is decoded as \<open>-1.0\<close>.  It also
  fails at the empty array, whose chunk decodes to no bytes, for which \<open>createBuffer\<close>
  throws.
\<close>

theorem roundtrip_counterexample:
  "and_then (decode (data (createBlob [Finite 1]))) (\<lambda>bytes. decodeAudioData bytes 24000 1) =
     Inr \<lparr>numberOfChannels = 1, frames = 1, sampleRate = 24000, channelData = [[Finite (- 1)]]\<rparr>
   \<and> \<not> \<bar>(- 1 :: real) - 1\<bar> \<le> 1 / 32768
   \<and> and_then (decode (data (createBlob []))) (\<lambda>bytes. decodeAudioData bytes 24000 1) =
       Inl NotSupportedError"
proof (intro conjI)
  have "trunc 32768 = 32768" by (simp add: trunc_def)
  then have w: "ToInt16 (times32768 (Finite 1)) = word_of_int 32768" by simp
  have s: "sint (word_of_int 32768 :: int16) = - 32768" by (simp add: sint_ToInt16)
  have "and_then (decode (data (createBlob [Finite 1]))) (\<lambda>bytes. decodeAudioData bytes 24000 1) =
          decodeAudioData (bytes_of_Int16Array [word_of_int 32768]) 24000 1"
    by (simp only: decode_createBlob and_then_def sum.case list.map w)
  also have "\<dots> = Inr \<lparr>numberOfChannels = 1, frames = 1, sampleRate = 24000, channelData = [[Finite (- 1)]]\<rparr>"
    using decodeAudioData_mono[of "[word_of_int 32768]" 24000] by (simp add: s)
  finally show "and_then (decode (data (createBlob [Finite 1]))) (\<lambda>bytes. decodeAudioData bytes 24000 1) =
     Inr \<lparr>numberOfChannels = 1, frames = 1, sampleRate = 24000, channelData = [[Finite (- 1)]]\<rparr>" .
  show "\<not> \<bar>(- 1 :: real) - 1\<bar> \<le> 1 / 32768" by simp
  show "and_then (decode (data (createBlob []))) (\<lambda>bytes. decodeAudioData bytes 24000 1) =
       Inl NotSupportedError"
    using decodeAudioData_empty[of 24000]
    by (simp add: decode_createBlob and_then_def bytes_of_Int16Array_def)
qed

theorem roundtrip_quantization_witness:
  "\<exists>ys. and_then (decode (data (createBlob (map Finite [3 / 10, - 1])))) (\<lambda>bytes. decodeAudioData bytes 24000 1) =
           Inr \<lparr>numberOfChannels = 1, frames = 2, sampleRate = 24000, channelData = [map Finite ys]\<rparr>
        \<and> length ys = 2
        \<and> \<bar>ys ! 0 - 3 / 10\<bar> \<le> 1 / 32768 \<and> \<bar>ys ! 1 - (- 1)\<bar> \<le> 1 / 32768"
proof -
  have h: "\<forall>x\<in>set [3 / 10, - 1 :: real]. - 1 \<le> x \<and> x < 1" by simp
  from roundtrip_quantization[of "[3 / 10, - 1]" 24000, OF _ h]
  obtain ys where
    "and_then (decode (data (createBlob (map Finite [3 / 10, - 1])))) (\<lambda>bytes. decodeAudioData bytes 24000 1) =
           Inr \<lparr>numberOfChannels = 1, frames = length [3 / 10, - 1 :: real], sampleRate = 24000, channelData = [map Finite ys]\<rparr>"
    "length ys = length [3 / 10, - 1 :: real]"
    "\<forall>i<length [3 / 10, - 1 :: real]. \<bar>ys ! i - [3 / 10, - 1] ! i\<bar> \<le> 1 / 32768"
    by auto
  then show ?thesis
    by (intro exI[of _ ys]) (auto simp add: nth_Cons')
qed

section \<open>The inbound path: transcript and playback scheduling\<close>

lemma duration_nonneg: "0 \<le> duration buf"
  by (simp add: duration_def)

lemma handle_text_cursor: "nextStartTimeRef (handle_text_transcription msg st) = nextStartTimeRef st"
  by (simp add: handle_text_transcription_def split: option.splits)

lemma handle_text_set_cursor:
  "handle_text_transcription msg (st\<lparr>nextStartTimeRef := c\<rparr>) =
     (handle_text_transcription msg st)\<lparr>nextStartTimeRef := c\<rparr>"
  by (simp add: handle_text_transcription_def split: option.splits)

lemma onmessage_segment:
  assumes "msg_segment msg = Some buf"
  shows "onmessage now msg st =
           (None, [SourceStart (max (nextStartTimeRef st) now) buf],
            (handle_text_transcription msg st)\<lparr>nextStartTimeRef := max (nextStartTimeRef st) now + duration buf\<rparr>)"
  using assms
  by (auto simp add: onmessage_def msg_segment_def handle_text_cursor Let_def
           split: sum.splits option.splits if_splits)

lemma onmessage_cases:
  "(\<exists>err. onmessage now msg st = (err, [], handle_text_transcription msg st))
   \<or> (\<exists>err. onmessage now msg st =
          (Some err, [], (handle_text_transcription msg st)\<lparr>nextStartTimeRef := max (nextStartTimeRef st) now\<rparr>))
   \<or> (\<exists>buf. onmessage now msg st =
          (None, [SourceStart (max (nextStartTimeRef st) now) buf],
           (handle_text_transcription msg st)\<lparr>nextStartTimeRef := max (nextStartTimeRef st) now + duration buf\<rparr>))"
  by (auto simp add: onmessage_def handle_text_cursor Let_def split: sum.splits option.splits)

lemma max_plus_ge: "0 \<le> d \<Longrightarrow> (c::real) \<le> max c t + d"
  by (simp add: max_def)

lemma onmessage_cursor_mono:
  "nextStartTimeRef st \<le> nextStartTimeRef (snd (snd (onmessage now msg st)))"
  using onmessage_cases[of now msg st] max_plus_ge[OF duration_nonneg]
  by (auto simp add: handle_text_cursor)

lemma onmessage_start_after_now:
  "(t, b) \<in> set (started (fst (snd (onmessage now msg st)))) \<Longrightarrow> now \<le> t \<and> nextStartTimeRef st \<le> t"
  using onmessage_cases[of now msg st] by auto

lemma run_messages_cursor_mono:
  "nextStartTimeRef st \<le> nextStartTimeRef (snd (run_messages evs st))"
proof (induction evs arbitrary: st)
  case Nil
  show ?case by simp
next
  case (Cons e evs)
  obtain now msg where e: "e = (now, msg)" by (cases e)
  obtain err effs st' where om: "onmessage now msg st = (err, effs, st')"
    by (cases "onmessage now msg st")
  have "nextStartTimeRef st \<le> nextStartTimeRef st'"
    using onmessage_cursor_mono[of st now msg] om by simp
  also have "\<dots> \<le> nextStartTimeRef (snd (run_messages evs st'))"
    by (rule Cons.IH)
  finally show ?case
    using e om by (cases "run_messages evs st'") simp
qed


lemma run_messages_Cons_segment:
  assumes "msg_segment msg = Some buf"
  shows "started (fst (run_messages ((now, msg) # evs) st)) =
           (max (nextStartTimeRef st) now, buf) #
           started (fst (run_messages evs
             ((handle_text_transcription msg st)\<lparr>nextStartTimeRef := max (nextStartTimeRef st) now + duration buf\<rparr>)))"
  by (simp add: onmessage_segment[OF assms] split: prod.splits)

lemma schedule_shape:
  assumes "\<forall>e\<in>set evs. \<exists>buf. msg_segment (snd e) = Some buf"
  shows "length (started (fst (run_messages evs st))) = length evs
       \<and> map (\<lambda>p. Some (snd p)) (started (fst (run_messages evs st))) = map (\<lambda>e. msg_segment (snd e)) evs
       \<and> (evs \<noteq> [] \<longrightarrow> fst (started (fst (run_messages evs st)) ! 0) = max (nextStartTimeRef st) (fst (evs ! 0)))
       \<and> (\<forall>i. Suc i < length evs \<longrightarrow>
            fst (started (fst (run_messages evs st)) ! Suc i) =
              max (fst (started (fst (run_messages evs st)) ! i)
                     + duration (snd (started (fst (run_messages evs st)) ! i)))
                  (fst (evs ! Suc i)))"
  using assms
proof (induction evs arbitrary: st)
  case Nil
  show ?case by simp
next
  case (Cons e evs)
  obtain now msg where e: "e = (now, msg)" by (cases e)
  from Cons.prems e obtain buf where buf: "msg_segment msg = Some buf" by auto
  let ?st' = "(handle_text_transcription msg st)\<lparr>nextStartTimeRef := max (nextStartTimeRef st) now + duration buf\<rparr>"
  let ?S' = "started (fst (run_messages evs ?st'))"
  have S: "started (fst (run_messages (e # evs) st)) = (max (nextStartTimeRef st) now, buf) # ?S'"
    unfolding e by (rule run_messages_Cons_segment[OF buf])
  from Cons.prems have "\<forall>e\<in>set evs. \<exists>buf. msg_segment (snd e) = Some buf" by simp
  note IH = Cons.IH[OF this, of ?st']
  have len: "length ?S' = length evs"
    by (rule IH[THEN conjunct1])
  have bufs: "map (\<lambda>p. Some (snd p)) ?S' = map (\<lambda>e. msg_segment (snd e)) evs"
    by (rule IH[THEN conjunct2, THEN conjunct1])
  have first: "evs \<noteq> [] \<Longrightarrow> fst (?S' ! 0) = max (max (nextStartTimeRef st) now + duration buf) (fst (evs ! 0))"
    using IH[THEN conjunct2, THEN conjunct2, THEN conjunct1] by simp
  have rest: "\<And>i. Suc i < length evs \<Longrightarrow>
      fst (?S' ! Suc i) = max (fst (?S' ! i) + duration (snd (?S' ! i))) (fst (evs ! Suc i))"
    using IH[THEN conjunct2, THEN conjunct2, THEN conjunct2] by (rule allE) (erule mp)
  have step: "fst (((max (nextStartTimeRef st) now, buf) # ?S') ! Suc i) =
              max (fst (((max (nextStartTimeRef st) now, buf) # ?S') ! i)
                     + duration (snd (((max (nextStartTimeRef st) now, buf) # ?S') ! i)))
                  (fst ((e # evs) ! Suc i))" if i: "Suc i < length (e # evs)" for i
  proof (cases i)
    case 0
    with i have "evs \<noteq> []" by auto
    from first[OF this] 0 show ?thesis by simp
  next
    case (Suc j)
    with i have "Suc j < length evs" by simp
    from rest[OF this] Suc show ?thesis by simp
  qed
  show ?case
    unfolding S
  proof (intro conjI)
    show "length ((max (nextStartTimeRef st) now, buf) # ?S') = length (e # evs)"
      using len by simp
    show "map (\<lambda>p. Some (snd p)) ((max (nextStartTimeRef st) now, buf) # ?S') = map (\<lambda>e. msg_segment (snd e)) (e # evs)"
      using bufs buf by (simp add: e)
    show "e # evs \<noteq> [] \<longrightarrow>
            fst (((max (nextStartTimeRef st) now, buf) # ?S') ! 0) = max (nextStartTimeRef st) (fst ((e # evs) ! 0))"
      by (simp add: e)
    show "\<forall>i. Suc i < length (e # evs) \<longrightarrow>
            fst (((max (nextStartTimeRef st) now, buf) # ?S') ! Suc i) =
              max (fst (((max (nextStartTimeRef st) now, buf) # ?S') ! i)
                     + duration (snd (((max (nextStartTimeRef st) now, buf) # ?S') ! i)))
                  (fst ((e # evs) ! Suc i))"
      using step by blast
  qed
qed

text \<open>
  Claim C1.  Let every message of a session carry an audio payload that decodes to a
  segment.  Then one source is started per message, with the segments in arrival order,
  and for each segment and its successor: the start times do not decrease, the successor
  starts no earlier than the segment's start plus its duration, and no later than the
  larger of that sum and the reading of the output clock when the successor is
  scheduled.
\<close>

theorem playback_schedule:
  assumes "\<forall>e\<in>set evs. \<exists>buf. msg_segment (snd e) = Some buf"
  shows "length (started (fst (run_messages evs st))) = length evs
       \<and> map (\<lambda>p. Some (snd p)) (started (fst (run_messages evs st))) = map (\<lambda>e. msg_segment (snd e)) evs
       \<and> (\<forall>i. Suc i < length evs \<longrightarrow>
            (let sched = started (fst (run_messages evs st));
                 start0 = fst (sched ! i); d0 = duration (snd (sched ! i));
                 start1 = fst (sched ! Suc i)
             in start0 \<le> start1 \<and> start0 + d0 \<le> start1
                \<and> start1 \<le> max (start0 + d0) (fst (evs ! Suc i))))"
proof -
  note shape = schedule_shape[OF assms, of st]
  have "\<forall>i. Suc i < length evs \<longrightarrow>
            (let sched = started (fst (run_messages evs st));
                 start0 = fst (sched ! i); d0 = duration (snd (sched ! i));
                 start1 = fst (sched ! Suc i)
             in start0 \<le> start1 \<and> start0 + d0 \<le> start1
                \<and> start1 \<le> max (start0 + d0) (fst (evs ! Suc i)))"
  proof (intro allI impI)
    fix i assume "Suc i < length evs"
    with shape have eq: "fst (started (fst (run_messages evs st)) ! Suc i) =
              max (fst (started (fst (run_messages evs st)) ! i)
                     + duration (snd (started (fst (run_messages evs st)) ! i)))
                  (fst (evs ! Suc i))" by blast
    have "0 \<le> duration (snd (started (fst (run_messages evs st)) ! i))" by (rule duration_nonneg)
    with eq show "(let sched = started (fst (run_messages evs st));
                 start0 = fst (sched ! i); d0 = duration (snd (sched ! i));
                 start1 = fst (sched ! Suc i)
             in start0 \<le> start1 \<and> start0 + d0 \<le> start1
                \<and> start1 \<le> max (start0 + d0) (fst (evs ! Suc i)))"
      by (simp add: Let_def max_def)
  qed
  with shape show ?thesis by blast
qed

lemma decode_AAA: "decode ''AAA='' = Inr [0, 0]"
  by code_simp

lemma buffer_AAA:
  "and_then (decode ''AAA='') (\<lambda>bytes. decodeAudioData bytes 24000 1) =
     Inr \<lparr>numberOfChannels = 1, frames = 1, sampleRate = 24000, channelData = [[Finite 0]]\<rparr>"
  using decodeAudioData_mono[of "[0]" 24000]
  by (simp add: decode_AAA and_then_def bytes_of_Int16Array_def int16_bytes_def)

lemma segment_AAA:
  "msg_segment (message fragment (Some ''AAA='')) =
     Some \<lparr>numberOfChannels = 1, frames = 1, sampleRate = 24000, channelData = [[Finite 0]]\<rparr>"
  using buffer_AAA
  by (cases fragment) (simp_all add: msg_segment_def msg_base64Audio_def message_def)

theorem playback_schedule_witness:
  "length (started (fst (run_messages [(0, message None (Some ''AAA='')), (0, message None (Some ''AAA=''))] initial_component))) = 2
   \<and> (let sched = started (fst (run_messages [(0, message None (Some ''AAA='')), (0, message None (Some ''AAA=''))] initial_component));
          start0 = fst (sched ! 0); d0 = duration (snd (sched ! 0)); start1 = fst (sched ! Suc 0)
      in start0 \<le> start1 \<and> start0 + d0 \<le> start1 \<and> start1 \<le> max (start0 + d0) 0)"
proof -
  have h: "\<forall>e\<in>set [(0::real, message None (Some ''AAA='')), (0, message None (Some ''AAA=''))].
             \<exists>buf. msg_segment (snd e) = Some buf"
    by (simp add: segment_AAA)
  from playback_schedule[OF h, of initial_component] show ?thesis
    by simp
qed


lemma connect_cursor: "nextStartTimeRef (snd (connect env st)) = nextStartTimeRef st"
  by (simp add: connect_def Let_def split: option.splits)

text \<open>
  Claim C2.  The cursor \<open>nextStartTimeRef\<close> never decreases: not over one message, not
  over any run of messages, and \<open>connect\<close> leaves it alone.  Every source that a message
  starts is started at a time that is at least the reading of the output clock when the
  message is handled.
\<close>

theorem cursor_monotone:
  "nextStartTimeRef st \<le> nextStartTimeRef (snd (snd (onmessage now msg st)))
   \<and> nextStartTimeRef st \<le> nextStartTimeRef (snd (run_messages evs st))
   \<and> nextStartTimeRef (snd (connect env st)) = nextStartTimeRef st
   \<and> (\<forall>t b. (t, b) \<in> set (started (fst (snd (onmessage now msg st)))) \<longrightarrow> now \<le> t)"
  using onmessage_cursor_mono[of st now msg] run_messages_cursor_mono[of st evs]
        connect_cursor[of env st] onmessage_start_after_now[of _ _ now msg st]
  by blast

theorem cursor_monotone_witness:
  "started (fst (snd (onmessage 2 (message None (Some ''AAA='')) initial_component))) =
     [(2, \<lparr>numberOfChannels = 1, frames = 1, sampleRate = 24000, channelData = [[Finite 0]]\<rparr>)]
   \<and> (2::real) \<le> 2
   \<and> nextStartTimeRef initial_component
        \<le> nextStartTimeRef (snd (snd (onmessage 2 (message None (Some ''AAA='')) initial_component)))"
proof -
  let ?buf = "\<lparr>numberOfChannels = 1, frames = 1, sampleRate = 24000, channelData = [[Finite 0]]\<rparr>"
  have s: "started (fst (snd (onmessage 2 (message None (Some ''AAA='')) initial_component))) = [(2, ?buf)]"
    by (simp add: onmessage_segment[OF segment_AAA] initial_component_def)
  then have "(2, ?buf) \<in> set (started (fst (snd (onmessage 2 (message None (Some ''AAA='')) initial_component))))"
    by simp
  with cursor_monotone[of initial_component 2 "message None (Some ''AAA='')" "[]" "\<lparr>VITE_API_KEY = None, window_API_KEY = None, getUserMedia = None\<rparr>"] s
  show ?thesis by blast
qed

lemma decode_Nil: "decode [] = Inr []"
  by (simp add: decode_def atob_def strip_padding_def and_then_def)

lemma onmessage_shifted:
  assumes "t0 \<le> now"
  shows "onmessage now msg (st\<lparr>nextStartTimeRef := max (nextStartTimeRef st) t0\<rparr>) =
           (case onmessage now msg st of
              (err, effs, st') \<Rightarrow> (err, effs, st'\<lparr>nextStartTimeRef := max (nextStartTimeRef st') t0\<rparr>))"
proof -
  have a: "max (max (nextStartTimeRef st) t0) now = max (nextStartTimeRef st) now"
    using assms by simp
  have b: "max (max (nextStartTimeRef st) now) t0 = max (nextStartTimeRef st) now"
    using assms by simp
  have c: "max (max (nextStartTimeRef st) now + duration buf) t0 = max (nextStartTimeRef st) now + duration buf" for buf
    using assms duration_nonneg[of buf] by (simp add: max_def)
  show ?thesis
    by (simp add: onmessage_def Let_def handle_text_set_cursor handle_text_cursor a b c
             split: sum.splits option.splits)
qed

lemma run_messages_shifted:
  assumes "\<forall>e\<in>set evs. t0 \<le> fst e"
  shows "run_messages evs (st\<lparr>nextStartTimeRef := max (nextStartTimeRef st) t0\<rparr>) =
           (case run_messages evs st of
              (effs, st') \<Rightarrow> (effs, st'\<lparr>nextStartTimeRef := max (nextStartTimeRef st') t0\<rparr>))"
  using assms
proof (induction evs arbitrary: st)
  case Nil
  show ?case by simp
next
  case (Cons e evs)
  obtain now msg where e: "e = (now, msg)" by (cases e)
  with Cons.prems have now: "t0 \<le> now" and rest: "\<forall>e\<in>set evs. t0 \<le> fst e" by simp_all
  obtain err effs st' where om: "onmessage now msg st = (err, effs, st')"
    by (cases "onmessage now msg st")
  show ?case
    unfolding e
    by (simp add: onmessage_shifted[OF now] om Cons.IH[OF rest] split: prod.splits)
qed

text \<open>
  Claim C4.  Let a message carry an audio payload that decodes to an odd number of
  bytes (the component decodes with one channel).  Then decoding throws, no source is
  started for it, and the transcript fragment of the same message is handled as usual;
  the only other trace is that the cursor has been raised to the clock's reading.  Since
  the output clock does not run backwards, the messages that follow start the same
  sources at the same times and build the same transcript as they would have if the
  message had carried no audio at all.
\<close>

theorem malformed_audio_dropped:
  assumes "msg_base64Audio msg = Inr (Some base64Audio)"
      and "decode base64Audio = Inr bytes"
      and "odd (length bytes)"
      and "\<forall>e\<in>set later. now \<le> fst e"
  shows "onmessage now msg st =
           (Some RangeError, [],
            (handle_text_transcription msg st)\<lparr>nextStartTimeRef := max (nextStartTimeRef st) now\<rparr>)
       \<and> fst (run_messages later (snd (snd (onmessage now msg st))))
           = fst (run_messages later (handle_text_transcription msg st))
       \<and> transcription (snd (run_messages later (snd (snd (onmessage now msg st)))))
           = transcription (snd (run_messages later (handle_text_transcription msg st)))"
proof -
  from assms(2,3) have ne: "base64Audio \<noteq> []"
    using decode_Nil by auto
  from assms(3) have fail: "decodeAudioData bytes 24000 1 = Inl RangeError"
    by (simp add: decodeAudioData_def new_Int16Array_def and_then_def)
  have om: "onmessage now msg st =
           (Some RangeError, [],
            (handle_text_transcription msg st)\<lparr>nextStartTimeRef := max (nextStartTimeRef st) now\<rparr>)"
    using assms(1,2) ne fail
    by (simp add: onmessage_def Let_def and_then_def handle_text_cursor)
  let ?st1 = "handle_text_transcription msg st"
  have "run_messages later (?st1\<lparr>nextStartTimeRef := max (nextStartTimeRef ?st1) now\<rparr>) =
           (case run_messages later ?st1 of
              (effs, st') \<Rightarrow> (effs, st'\<lparr>nextStartTimeRef := max (nextStartTimeRef st') now\<rparr>))"
    by (rule run_messages_shifted[OF assms(4)])
  then show ?thesis
    unfolding om by (simp add: handle_text_cursor split: prod.splits)
qed

lemma decode_AA: "decode ''AA=='' = Inr [0]"
  by code_simp

theorem malformed_audio_dropped_witness:
  "onmessage 1 (message None (Some ''AA=='')) initial_component =
     (Some RangeError, [], initial_component\<lparr>nextStartTimeRef := 1\<rparr>)
   \<and> fst (run_messages [(2, message None (Some ''AAA=''))] (snd (snd (onmessage 1 (message None (Some ''AA=='')) initial_component))))
       = fst (run_messages [(2, message None (Some ''AAA=''))] initial_component)"
proof -
  have 1: "msg_base64Audio (message None (Some ''AA=='')) = Inr (Some ''AA=='')"
    by (simp add: msg_base64Audio_def message_def)
  have 2: "odd (length [0::byte])" by simp
  have 3: "\<forall>e\<in>set [(2::real, message None (Some ''AAA=''))]. 1 \<le> fst e" by simp
  have 4: "handle_text_transcription (message None (Some ''AA=='')) initial_component = initial_component"
    by (simp add: handle_text_transcription_def msg_outputTranscription_def message_def)
  have 5: "max (nextStartTimeRef initial_component) 1 = 1"
    by (simp add: initial_component_def)
  from malformed_audio_dropped[OF 1 decode_AA 2 3, of initial_component]
  show ?thesis
    unfolding 4 5 by blast
qed

text \<open>
  Claim C7.  Let a message carry the transcript fragment \<open>fragment\<close>.  If it carries no
  audio payload (none, or an empty one, or no parts at all), handling it starts no source,
  leaves the cursor as it is and appends exactly \<open>fragment\<close> to the transcript.  If it
  also carries a payload that decodes to a segment, the fragment is appended and the
  segment is started as well.
\<close>

theorem transcript_and_audio:
  assumes "msg_outputTranscription msg = Some (OutputTranscription (Some fragment))"
  shows "((\<forall>b. msg_base64Audio msg = Inr (Some b) \<longrightarrow> b = []) \<longrightarrow>
            snd (onmessage now msg st) = ([], st\<lparr>transcription := transcription st @ fragment\<rparr>))
       \<and> (msg_segment msg = Some buf \<longrightarrow>
            onmessage now msg st =
              (None, [SourceStart (max (nextStartTimeRef st) now) buf],
               st\<lparr>transcription := transcription st @ fragment,
                   nextStartTimeRef := max (nextStartTimeRef st) now + duration buf\<rparr>))"
proof (intro conjI impI)
  have tr: "handle_text_transcription msg st = st\<lparr>transcription := transcription st @ fragment\<rparr>"
    using assms by (simp add: handle_text_transcription_def)
  {
    assume "\<forall>b. msg_base64Audio msg = Inr (Some b) \<longrightarrow> b = []"
    then show "snd (onmessage now msg st) = ([], st\<lparr>transcription := transcription st @ fragment\<rparr>)"
      by (auto simp add: onmessage_def tr Let_def split: sum.splits option.splits)
  next
    assume "msg_segment msg = Some buf"
    from onmessage_segment[OF this, of now st]
    show "onmessage now msg st =
              (None, [SourceStart (max (nextStartTimeRef st) now) buf],
               st\<lparr>transcription := transcription st @ fragment,
                   nextStartTimeRef := max (nextStartTimeRef st) now + duration buf\<rparr>)"
      by (simp add: tr)
  }
qed

theorem transcript_and_audio_witness:
  "snd (onmessage 0 (message (Some ''hi'') None) initial_component) =
     ([], initial_component\<lparr>transcription := transcription initial_component @ ''hi''\<rparr>)
   \<and> onmessage 0 (message (Some ''hi'') (Some ''AAA='')) initial_component =
       (None,
        [SourceStart (max (nextStartTimeRef initial_component) 0)
           \<lparr>numberOfChannels = 1, frames = 1, sampleRate = 24000, channelData = [[Finite 0]]\<rparr>],
        initial_component\<lparr>transcription := transcription initial_component @ ''hi'',
           nextStartTimeRef := max (nextStartTimeRef initial_component) 0
             + duration \<lparr>numberOfChannels = 1, frames = 1, sampleRate = 24000, channelData = [[Finite 0]]\<rparr>\<rparr>)"
proof -
  have t1: "msg_outputTranscription (message (Some ''hi'') None) = Some (OutputTranscription (Some ''hi''))"
    by (simp add: msg_outputTranscription_def message_def)
  have a1: "\<forall>b. msg_base64Audio (message (Some ''hi'') None) = Inr (Some b) \<longrightarrow> b = []"
    by (simp add: msg_base64Audio_def message_def)
  have t2: "msg_outputTranscription (message (Some ''hi'') (Some ''AAA='')) = Some (OutputTranscription (Some ''hi''))"
    by (simp add: msg_outputTranscription_def message_def)
  from transcript_and_audio[OF t1, of 0 initial_component] a1
       transcript_and_audio[OF t2, of 0 initial_component] segment_AAA[of "Some ''hi''"]
  show ?thesis by blast
qed

section \<open>Connecting without a credential, disconnecting twice\<close>

text \<open>
  Claim C6.  When neither source holds a non-empty API key, \<open>connect\<close> reports the
  missing key on the console and in the status line, leaves the component inactive and
  does nothing else: no audio context is created, the microphone is not requested, no
  connection to the remote service is opened, and no reference cell changes.
\<close>

theorem connect_missing_credential:
  assumes "VITE_API_KEY env = None \<or> VITE_API_KEY env = Some []"
      and "window_API_KEY env = None \<or> window_API_KEY env = Some []"
  shows "connect env st =
           ([ConsoleError ''Missing API key. Set VITE_API_KEY in your environment.''],
            st\<lparr>status := ''Missing API key'', active := False\<rparr>)"
proof -
  from assms have "first_truthy (VITE_API_KEY env) (window_API_KEY env) = []"
    by (auto simp add: first_truthy_def)
  then show ?thesis
    by (simp add: connect_def)
qed

theorem connect_missing_credential_witness:
  "connect \<lparr>VITE_API_KEY = None, window_API_KEY = Some [], getUserMedia = Some [0]\<rparr> initial_component =
     ([ConsoleError ''Missing API key. Set VITE_API_KEY in your environment.''],
      initial_component\<lparr>status := ''Missing API key'', active := False\<rparr>)"
  using connect_missing_credential
    [of "\<lparr>VITE_API_KEY = None, window_API_KEY = Some [], getUserMedia = Some [0]\<rparr>" initial_component]
  by simp




section \<open>The container header written by \<open>pcmToWav\<close>\<close>

lemma zeros44: "replicate 44 (0::byte) = [0,0,0,0,0,0,0,0,0,0,0,0,0,0,0,0,0,0,0,0,0,0,0,0,0,0,0,0,0,0,0,0,0,0,0,0,0,0,0,0,0,0,0,0]"
  by (simp add: numeral_eq_Suc)

lemma list_update_numeral: "(x # xs)[numeral n := y] = x # xs[pred_numeral n := y]"
  by (simp add: numeral_eq_Suc)

lemma header_bytes:
  "and_then (writeString (replicate 44 0) 0 ''RIFF'') (\<lambda>view.
     and_then (setUint32 view 4 (36 + pcmLen)) (\<lambda>view.
     and_then (writeString view 8 ''WAVE'') (\<lambda>view.
     and_then (writeString view 12 ''fmt '') (\<lambda>view.
     and_then (setUint32 view 16 16) (\<lambda>view.
     and_then (setUint16 view 20 1) (\<lambda>view.
     and_then (setUint16 view 22 1) (\<lambda>view.
     and_then (setUint32 view 24 rate) (\<lambda>view.
     and_then (setUint32 view 28 (rate * 2)) (\<lambda>view.
     and_then (setUint16 view 32 2) (\<lambda>view.
     and_then (setUint16 view 34 16) (\<lambda>view.
     and_then (writeString view 36 ''data'') (\<lambda>view.
     and_then (setUint32 view 40 pcmLen) k))))))))))))
   = k [0x52, 0x49, 0x46, 0x46,
        ToUint8 (36 + pcmLen), ToUint8 ((36 + pcmLen) div 256), ToUint8 ((36 + pcmLen) div 65536), ToUint8 ((36 + pcmLen) div 16777216),
        0x57, 0x41, 0x56, 0x45,
        0x66, 0x6D, 0x74, 0x20,
        16, 0, 0, 0,
        1, 0,
        1, 0,
        ToUint8 rate, ToUint8 (rate div 256), ToUint8 (rate div 65536), ToUint8 (rate div 16777216),
        ToUint8 (rate * 2), ToUint8 (rate * 2 div 256), ToUint8 (rate * 2 div 65536), ToUint8 (rate * 2 div 16777216),
        2, 0,
        16, 0,
        0x64, 0x61, 0x74, 0x61,
        ToUint8 pcmLen, ToUint8 (pcmLen div 256), ToUint8 (pcmLen div 65536), ToUint8 (pcmLen div 16777216)]"
  unfolding zeros44
  by (simp add: and_then_def setUint8_def setUint16_def setUint32_def charCodeAt_def list_update_numeral ToUint8_def)

lemma binary_chunks_all: "binary_chunks wavBytes i binary = binary @ map fromCharCode (drop i wavBytes)"
proof (induction wavBytes i binary rule: binary_chunks.induct)
  case (1 wavBytes i binary)
  show ?case
  proof (cases "i < length wavBytes")
    case False
    then show ?thesis by (subst binary_chunks.simps) simp
  next
    case True
    let ?n = "min (i + 0x8000) (length wavBytes) - i"
    have split: "take ?n (drop i wavBytes) @ drop (i + 0x8000) wavBytes = drop i wavBytes"
    proof (cases "i + 0x8000 \<le> length wavBytes")
      case True
      then have "?n = 0x8000" by simp
      moreover have "drop (i + 0x8000) wavBytes = drop 0x8000 (drop i wavBytes)"
        by (simp add: add.commute)
      ultimately show ?thesis by (simp only: append_take_drop_id)
    next
      case False
      then show ?thesis by simp
    qed
    have "binary_chunks wavBytes i binary =
            binary_chunks wavBytes (i + 0x8000) (binary @ map fromCharCode (take ?n (drop i wavBytes)))"
      using True by (subst binary_chunks.simps) simp
    also have "\<dots> = (binary @ map fromCharCode (take ?n (drop i wavBytes))) @ map fromCharCode (drop (i + 0x8000) wavBytes)"
      by (rule 1[OF True])
    also have "\<dots> = binary @ map fromCharCode (take ?n (drop i wavBytes) @ drop (i + 0x8000) wavBytes)"
      by simp
    finally show ?thesis by (simp only: split)
  qed
qed

lemma typed_set_header:
  assumes "length pcmBytes = pcmLen"
  shows "and_then (typed_set (replicate (length headerBytes + pcmLen) 0) headerBytes 0) (\<lambda>wavBytes.
           and_then (typed_set wavBytes pcmBytes (length headerBytes)) k) = k (headerBytes @ pcmBytes)"
  using assms by (simp add: typed_set_def and_then_def)

lemma unat_ToUint8: "unat (ToUint8 n) = n mod 256"
  by (simp add: ToUint8_def unat_of_nat)

lemma uint32_bytes:
  fixes v :: nat
  shows "v mod 256 + 256 * (v div 256 mod 256) + 65536 * (v div 65536 mod 256)
           + 16777216 * (v div 16777216 mod 256) = v mod 4294967296"
proof -
  have a: "v mod 4294967296 = v mod 16777216 + 16777216 * (v div 16777216 mod 256)"
    using mod_mult2_eq[of v 16777216 256] by simp
  have b: "v mod 16777216 = v mod 65536 + 65536 * (v div 65536 mod 256)"
    using mod_mult2_eq[of v 65536 256] by simp
  have c: "v mod 65536 = v mod 256 + 256 * (v div 256 mod 256)"
    using mod_mult2_eq[of v 256 256] by simp
  show ?thesis unfolding a b c by simp
qed


lemma uint16_bytes:
  fixes v :: nat
  shows "v mod 256 + 256 * (v div 256 mod 256) = v mod 65536"
  using mod_mult2_eq[of v 256 256] by simp

lemma decode_Inr:
  assumes "decode base64 = Inr bytes"
  shows "\<exists>binaryString. atob base64 = Inr binaryString \<and> bytes = map (\<lambda>c. ToUint8 (charCodeAt c)) binaryString"
  using assms by (cases "atob base64") (auto simp add: decode_def and_then_def)

lemma pcmToWav_bytes:
  assumes "decode pcmBase64 = Inr pcm"
  shows "pcmToWav pcmBase64 rate = Inr (btoa (map fromCharCode
    ([0x52, 0x49, 0x46, 0x46,
        ToUint8 (36 + length pcm), ToUint8 ((36 + length pcm) div 256), ToUint8 ((36 + length pcm) div 65536), ToUint8 ((36 + length pcm) div 16777216),
        0x57, 0x41, 0x56, 0x45,
        0x66, 0x6D, 0x74, 0x20,
        16, 0, 0, 0,
        1, 0,
        1, 0,
        ToUint8 rate, ToUint8 (rate div 256), ToUint8 (rate div 65536), ToUint8 (rate div 16777216),
        ToUint8 (rate * 2), ToUint8 (rate * 2 div 256), ToUint8 (rate * 2 div 65536), ToUint8 (rate * 2 div 16777216),
        2, 0,
        16, 0,
        0x64, 0x61, 0x74, 0x61,
        ToUint8 (length pcm), ToUint8 (length pcm div 256), ToUint8 (length pcm div 65536), ToUint8 (length pcm div 16777216)] @ pcm)))"
proof -
  from decode_Inr[OF assms] obtain pcmBinary where
    a: "atob pcmBase64 = Inr pcmBinary" and p: "pcm = map (\<lambda>c. ToUint8 (charCodeAt c)) pcmBinary"
    by iprover
  have len: "length pcmBinary = length pcm" using p by simp
  have ts: "length (map (\<lambda>c. ToUint8 (charCodeAt c)) pcmBinary) = length pcmBinary" by simp
  show ?thesis
    unfolding pcmToWav_def a Let_def
    apply (subst and_then_def)
    apply (simp only: sum.case)
    apply (simp only: header_bytes)
    apply (simp only: typed_set_header[OF ts])
    apply (simp only: binary_chunks_all drop_0 append_Nil p len)
    done
qed


lemma read_uint32:
  "unat (ToUint8 v) + 256 * unat (ToUint8 (v div 256)) + 65536 * unat (ToUint8 (v div 65536))
     + 16777216 * unat (ToUint8 (v div 16777216)) = v mod 4294967296"
  by (simp only: unat_ToUint8 uint32_bytes)

text \<open>
  Claim C9.  Let \<open>pcmBase64\<close> be base64 text for the bytes \<open>pcm\<close>, of a length \<open>L\<close> with
  \<open>36 + L\<close> below \<open>2^32\<close>, and let the sample rate be below \<open>2^32\<close>, so that both fit the
  header's 32-bit fields.  Then \<open>pcmToWav\<close> returns base64 text that decodes to \<open>44 + L\<close>
  bytes: \<open>RIFF\<close>, the file length \<open>36 + L\<close>, \<open>WAVE\<close>, \<open>fmt \<close>, a format chunk of
  length 16 for uncompressed audio (format 1), one channel, the sample rate, the byte
  rate, block alignment 2, 16 bits per sample, \<open>data\<close>, the data length \<open>L\<close>, and then
  the bytes \<open>pcm\<close> unchanged.
\<close>

theorem pcmToWav_layout:
  assumes "decode pcmBase64 = Inr pcm" and "36 + length pcm < 2 ^ 32" and "rate < 2 ^ 32"
  shows "\<exists>out wav. pcmToWav pcmBase64 rate = Inr out \<and> decode out = Inr wav
           \<and> length wav = 44 + length pcm
           \<and> take 4 wav = map (\<lambda>c. ToUint8 (charCodeAt c)) ''RIFF''
           \<and> getUint32 wav 4 = 36 + length pcm
           \<and> take 4 (drop 8 wav) = map (\<lambda>c. ToUint8 (charCodeAt c)) ''WAVE''
           \<and> take 4 (drop 12 wav) = map (\<lambda>c. ToUint8 (charCodeAt c)) ''fmt ''
           \<and> getUint32 wav 16 = 16
           \<and> getUint16 wav 20 = 1
           \<and> getUint16 wav 22 = 1
           \<and> getUint32 wav 24 = rate
           \<and> getUint32 wav 28 = (rate * 2) mod 2 ^ 32
           \<and> getUint16 wav 32 = 2
           \<and> getUint16 wav 34 = 16
           \<and> take 4 (drop 36 wav) = map (\<lambda>c. ToUint8 (charCodeAt c)) ''data''
           \<and> getUint32 wav 40 = length pcm
           \<and> drop 44 wav = pcm"
proof -
  define byteRate where "byteRate = rate * 2"
  let ?hdr = "[0x52, 0x49, 0x46, 0x46,
        ToUint8 (36 + length pcm), ToUint8 ((36 + length pcm) div 256), ToUint8 ((36 + length pcm) div 65536), ToUint8 ((36 + length pcm) div 16777216),
        0x57, 0x41, 0x56, 0x45,
        0x66, 0x6D, 0x74, 0x20,
        16, 0, 0, 0,
        1, 0,
        1, 0,
        ToUint8 rate, ToUint8 (rate div 256), ToUint8 (rate div 65536), ToUint8 (rate div 16777216),
        ToUint8 byteRate, ToUint8 (byteRate div 256), ToUint8 (byteRate div 65536), ToUint8 (byteRate div 16777216),
        2, 0,
        16, 0,
        0x64, 0x61, 0x74, 0x61,
        ToUint8 (length pcm), ToUint8 (length pcm div 256), ToUint8 (length pcm div 65536), ToUint8 (length pcm div 16777216)]"
  let ?wav = "?hdr @ pcm"
  have L: "length pcm < 4294967296" "36 + length pcm < 4294967296" and R: "rate < 4294967296"
    using assms(2,3) by simp_all
  have out: "pcmToWav pcmBase64 rate = Inr (btoa (map fromCharCode ?wav))"
    unfolding byteRate_def by (rule pcmToWav_bytes[OF assms(1)])
  have dec: "decode (btoa (map fromCharCode ?wav)) = Inr ?wav"
    by (rule decode_btoa)
  have len: "length ?wav = 44 + length pcm" by simp
  have riff: "take 4 ?wav = map (\<lambda>c. ToUint8 (charCodeAt c)) ''RIFF''"
    by (simp add: ToUint8_def charCodeAt_def)
  have wave: "take 4 (drop 8 ?wav) = map (\<lambda>c. ToUint8 (charCodeAt c)) ''WAVE''"
    by (simp add: ToUint8_def charCodeAt_def)
  have fmt: "take 4 (drop 12 ?wav) = map (\<lambda>c. ToUint8 (charCodeAt c)) ''fmt ''"
    by (simp add: ToUint8_def charCodeAt_def)
  have dat: "take 4 (drop 36 ?wav) = map (\<lambda>c. ToUint8 (charCodeAt c)) ''data''"
    by (simp add: ToUint8_def charCodeAt_def)
  have f4: "getUint32 ?wav 4 = 36 + length pcm"
    using L(2) by (simp add: getUint32_def read_uint32)
  have f16: "getUint32 ?wav 16 = 16" by (simp add: getUint32_def)
  have f20: "getUint16 ?wav 20 = 1" by (simp add: getUint16_def)
  have f22: "getUint16 ?wav 22 = 1" by (simp add: getUint16_def)
  have f24: "getUint32 ?wav 24 = rate"
    using R by (simp add: getUint32_def read_uint32)
  have "getUint32 ?wav 28 = byteRate mod 2 ^ 32"
    by (simp add: getUint32_def read_uint32)
  then have f28: "getUint32 ?wav 28 = (rate * 2) mod 2 ^ 32"
    by (simp only: byteRate_def)
  have f32: "getUint16 ?wav 32 = 2" by (simp add: getUint16_def)
  have f34: "getUint16 ?wav 34 = 16" by (simp add: getUint16_def)
  have f40: "getUint32 ?wav 40 = length pcm"
    using L(1) by (simp add: getUint32_def read_uint32)
  have pcm: "drop 44 ?wav = pcm" by simp
  show ?thesis
    by (intro exI[of _ "btoa (map fromCharCode ?wav)"] exI[of _ ?wav] conjI)
       (rule out dec len riff wave fmt dat f4 f16 f20 f22 f24 f28 f32 f34 f40 pcm)+
qed

lemma decode_AQI: "decode ''AQI='' = Inr [1, 2]"
  by code_simp

theorem pcmToWav_layout_witness:
  "\<exists>out wav. pcmToWav ''AQI='' 24000 = Inr out \<and> decode out = Inr wav
           \<and> length wav = 46 \<and> getUint32 wav 4 = 38 \<and> getUint16 wav 22 = 1 \<and> getUint32 wav 24 = 24000
           \<and> getUint16 wav 34 = 16 \<and> getUint32 wav 40 = 2 \<and> drop 44 wav = [1, 2]"
proof -
  have a: "36 + length [1, 2 :: byte] < 2 ^ 32" and b: "(24000::nat) < 2 ^ 32" by simp_all
  from pcmToWav_layout[OF decode_AQI a b] obtain out wav where
    "pcmToWav ''AQI='' 24000 = Inr out" "decode out = Inr wav" "length wav = 44 + length [1, 2 :: byte]"
    "getUint32 wav 4 = 36 + length [1, 2 :: byte]" "getUint16 wav 22 = 1" "getUint32 wav 24 = 24000"
    "getUint16 wav 34 = 16" "getUint32 wav 40 = length [1, 2 :: byte]" "drop 44 wav = [1, 2]"
    by iprover
  then show ?thesis
    by (intro exI[of _ out] exI[of _ wav]) simp
qed

section \<open>Retrying with \<open>withRetry\<close>\<close>

lemma starts_with_iff: "starts_with s t \<longleftrightarrow> (\<exists>q. s = t @ q)"
  by (induction s t rule: starts_with.induct) auto

lemma string_includes_iff: "string_includes s t \<longleftrightarrow> (\<exists>p q. s = p @ t @ q)"
proof (induction s)
  case Nil
  show ?case by auto
next
  case (Cons c cs)
  show ?case
  proof
    assume "string_includes (c # cs) t"
    then consider "starts_with (c # cs) t" | "string_includes cs t" by auto
    then show "\<exists>p q. c # cs = p @ t @ q"
    proof cases
      case 1
      then obtain q where "c # cs = t @ q" by (auto simp add: starts_with_iff)
      then have "c # cs = [] @ t @ q" by simp
      then show ?thesis by blast
    next
      case 2
      with Cons.IH obtain p q where "cs = p @ t @ q" by auto
      then have "c # cs = (c # p) @ t @ q" by simp
      then show ?thesis by blast
    qed
  next
    assume "\<exists>p q. c # cs = p @ t @ q"
    then obtain p q where pq: "c # cs = p @ t @ q" by blast
    show "string_includes (c # cs) t"
    proof (cases p)
      case Nil
      with pq have "starts_with (c # cs) t" by (auto simp add: starts_with_iff)
      then show ?thesis by simp
    next
      case (Cons d ds)
      with pq have "cs = ds @ t @ q" by simp
      with Cons.IH have "string_includes cs t" by blast
      then show ?thesis by simp
    qed
  qed
qed

lemma shouldRetry_iff:
  "shouldRetry error \<longleftrightarrow>
     (error_status error = Some 503 \<or> error_status error = Some 500 \<or> error_status error = Some 429
      \<or> (\<exists>m p q. error_message error = Some m \<and> m = p @ ''unavailable'' @ q))"
  by (auto simp add: shouldRetry_def string_includes_iff split: option.splits)

lemma withRetry_shape:
  "\<exists>n\<le>retries. withRetry fn retries delay k = (fn (k + n), k + n + 1, map (\<lambda>j. delay * 2 ^ j) [0..<n])
     \<and> (\<forall>j<n. \<exists>e. fn (k + j) = Inl e \<and> shouldRetry e)
     \<and> (n < retries \<longrightarrow> (\<forall>e. fn (k + n) = Inl e \<longrightarrow> \<not> shouldRetry e))"
proof (induction retries arbitrary: delay k)
  case 0
  show ?case by (subst withRetry.simps) (auto split: sum.splits)
next
  case (Suc retries)
  show ?case
  proof (cases "fn k")
    case (Inr v)
    then show ?thesis by (subst withRetry.simps) (intro exI[of _ 0], simp)
  next
    case (Inl error)
    show ?thesis
    proof (cases "shouldRetry error")
      case False
      with Inl show ?thesis by (subst withRetry.simps) (intro exI[of _ 0], simp)
    next
      case True
      from Suc.IH[of "delay * 2" "k + 1"] obtain n where n: "n \<le> retries"
        "withRetry fn retries (delay * 2) (k + 1) = (fn (k + 1 + n), k + 1 + n + 1, map (\<lambda>j. delay * 2 * 2 ^ j) [0..<n])"
        "\<forall>j<n. \<exists>e. fn (k + 1 + j) = Inl e \<and> shouldRetry e"
        "n < retries \<longrightarrow> (\<forall>e. fn (k + 1 + n) = Inl e \<longrightarrow> \<not> shouldRetry e)"
        by blast
      have delays: "map (\<lambda>j. delay * 2 ^ j) [0..<Suc n] = delay # map (\<lambda>j. delay * 2 * 2 ^ j) [0..<n]"
        by (simp add: upt_conv_Cons map_Suc_upt[symmetric] del: upt_Suc)
      have prev: "\<forall>j<Suc n. \<exists>e. fn (k + j) = Inl e \<and> shouldRetry e"
      proof (intro allI impI)
        fix j assume "j < Suc n"
        show "\<exists>e. fn (k + j) = Inl e \<and> shouldRetry e"
        proof (cases j)
          case 0 with Inl True show ?thesis by simp
        next
          case (Suc i)
          with \<open>j < Suc n\<close> n(3) show ?thesis by simp
        qed
      qed
      show ?thesis
        using n(1,2,4) Inl True prev
        by (subst withRetry.simps) (intro exI[of _ "Suc n"], simp add: delays del: upt_Suc)
    qed
  qed
qed


text \<open>
  Claim C10.  Called as everywhere in the service, with the default 3 retries and
  1000 ms, \<open>withRetry\<close> calls \<open>fn\<close> some \<open>n + 1\<close> times with \<open>n\<close> at most 3, so at most 4
  times; every call but the last was rejected with status 503, 500 or 429 or with a
  message that contains \<open>unavailable\<close>; before the retries it waited 1000, 2000 and
  4000 ms, as many of them as there were retries; the caller gets what the last call
  gave, unchanged; and when fewer than 3 retries were made, the last call was not
  rejected with such an error.
\<close>

theorem withRetry_bounded:
  "\<exists>n\<le>3. withRetry fn 3 1000 0 = (fn n, n + 1, take n [1000, 2000, 4000])
     \<and> (\<forall>j<n. \<exists>e. fn j = Inl e
            \<and> (error_status e = Some 503 \<or> error_status e = Some 500 \<or> error_status e = Some 429
                 \<or> (\<exists>m p q. error_message e = Some m \<and> m = p @ ''unavailable'' @ q)))
     \<and> (n < 3 \<longrightarrow> (\<forall>e. fn n = Inl e \<longrightarrow>
            \<not> (error_status e = Some 503 \<or> error_status e = Some 500 \<or> error_status e = Some 429
                 \<or> (\<exists>m p q. error_message e = Some m \<and> m = p @ ''unavailable'' @ q))))"
proof -
  from withRetry_shape[of 3 fn 1000 0] obtain n where n: "n \<le> 3"
    "withRetry fn 3 1000 0 = (fn n, n + 1, map (\<lambda>j. 1000 * 2 ^ j) [0..<n])"
    "\<forall>j<n. \<exists>e. fn j = Inl e \<and> shouldRetry e"
    "n < 3 \<longrightarrow> (\<forall>e. fn n = Inl e \<longrightarrow> \<not> shouldRetry e)"
    by auto
  from n(1) consider "n = 0" | "n = 1" | "n = 2" | "n = 3" by linarith
  then have "map (\<lambda>j. 1000 * 2 ^ j) [0..<n] = take n [1000, 2000, 4000 :: nat]"
    by cases (simp_all add: upt_rec numeral_2_eq_2 numeral_3_eq_3)
  with n show ?thesis
    unfolding shouldRetry_iff by (intro exI[of _ n]) simp
qed

theorem withRetry_bounded_witness:
  "withRetry flaky 3 1000 0 = (Inr 7, 3, [1000, 2000])"
proof -
  from withRetry_bounded[of flaky] obtain n where n: "n \<le> 3"
    "withRetry flaky 3 1000 0 = (flaky n, n + 1, take n [1000, 2000, 4000])"
    "\<forall>j<n. \<exists>e. flaky j = Inl e"
    "n < 3 \<longrightarrow> (\<forall>e. flaky n = Inl e \<longrightarrow>
            \<not> (error_status e = Some 503 \<or> error_status e = Some 500 \<or> error_status e = Some 429
                 \<or> (\<exists>m p q. error_message e = Some m \<and> m = p @ ''unavailable'' @ q)))"
    by blast
  have "\<not> n < 2"
  proof
    assume "n < 2"
    with n(4) show False by (simp add: flaky_def)
  qed
  moreover have "\<not> 2 < n"
  proof
    assume "2 < n"
    with n(3) have "\<exists>e. flaky 2 = Inl e" by blast
    then show False by (simp add: flaky_def)
  qed
  ultimately have "n = 2" by simp
  with n(2) show ?thesis by (simp add: flaky_def)
qed

end
